theory Spec2Isabelle
  imports Complex_Main
begin

section \<open>Strings\<close>

text \<open>
  Text is modelled as \<^typ>\<open>string\<close> over the ASCII alphabet: the markers, patterns and
  keywords of the program are all ASCII, and the case mappings and character classes
  below are the ASCII restrictions of the library functions the source calls.
\<close>

definition NL :: char where
  "NL = CHR 0x0A"

definition CR :: char where
  "CR = CHR 0x0D"

definition BSL :: char where
  "BSL = CHR 0x5C"

definition uppers :: string where
  "uppers = ''ABCDEFGHIJKLMNOPQRSTUVWXYZ''"

definition lowers :: string where
  "lowers = ''abcdefghijklmnopqrstuvwxyz''"

definition digits :: string where
  "digits = ''0123456789''"

definition is_upper_c :: "char \<Rightarrow> bool" where
  "is_upper_c c = (c \<in> set uppers)"

definition is_lower_c :: "char \<Rightarrow> bool" where
  "is_lower_c c = (c \<in> set lowers)"

definition is_digit_c :: "char \<Rightarrow> bool" where
  "is_digit_c c = (c \<in> set digits)"

definition lower_c :: "char \<Rightarrow> char" where
  "lower_c c = (case map_of (zip uppers lowers) c of Some l \<Rightarrow> l | None \<Rightarrow> c)"

text \<open>Python's \<open>str.lower()\<close>.\<close>

definition lower :: "string \<Rightarrow> string" where
  "lower s = map lower_c s"

text \<open>
  Python's whitespace (\<open>str.isspace\<close>, \<open>str.strip\<close> without argument, \<open>\s\<close> in a
  \<open>str\<close> pattern): tab, line feed, vertical tab, form feed, carriage return, the four
  separators 0x1C..0x1F and the space.
\<close>

definition py_space :: "char \<Rightarrow> bool" where
  "py_space c =
     (c \<in> set [CHR 0x09, CHR 0x0A, CHR 0x0B, CHR 0x0C, CHR 0x0D,
                CHR 0x1C, CHR 0x1D, CHR 0x1E, CHR 0x1F, CHR 0x20])"

text \<open>\<open>\w\<close>: letters, digits and the underscore.\<close>

definition is_word_c :: "char \<Rightarrow> bool" where
  "is_word_c c = (is_upper_c c \<or> is_lower_c c \<or> is_digit_c c \<or> c = CHR ''_'')"

text \<open>\<open>s.startswith(p)\<close>.\<close>

fun startswith :: "string \<Rightarrow> string \<Rightarrow> bool" where
  "startswith s [] = True"
| "startswith [] (p # ps) = False"
| "startswith (c # cs) (p # ps) = (c = p \<and> startswith cs ps)"

text \<open>\<open>s.endswith(p)\<close>.\<close>

definition endswith :: "string \<Rightarrow> string \<Rightarrow> bool" where
  "endswith s p = startswith (rev s) (rev p)"

text \<open>\<open>needle in s\<close> on strings: \<open>needle\<close> occurs in \<open>s\<close> as a substring.\<close>

fun contains :: "string \<Rightarrow> string \<Rightarrow> bool" where
  "contains [] needle = (needle = [])"
| "contains (c # cs) needle = (startswith (c # cs) needle \<or> contains cs needle)"

text \<open>\<open>s.lstrip()\<close>, \<open>s.rstrip()\<close> and \<open>s.lstrip('/')\<close>.\<close>

definition lstrip :: "string \<Rightarrow> string" where
  "lstrip s = dropWhile py_space s"

definition rstrip :: "string \<Rightarrow> string" where
  "rstrip s = rev (dropWhile py_space (rev s))"

definition lstrip_slash :: "string \<Rightarrow> string" where
  "lstrip_slash s = dropWhile (\<lambda>c. c = CHR ''/'') s"

text \<open>\<open>'\n'.join(xs)\<close>.\<close>

fun join_nl :: "string list \<Rightarrow> string" where
  "join_nl [] = []"
| "join_nl [x] = x"
| "join_nl (x # y # ys) = x @ NL # join_nl (y # ys)"

text \<open>\<open>s.split('\n')\<close>: never empty, the pieces hold no line feed.\<close>

fun split_nl :: "string \<Rightarrow> string list" where
  "split_nl [] = [[]]"
| "split_nl (c # cs) =
     (if c = NL then [] # split_nl cs
      else (case split_nl cs of [] \<Rightarrow> [[c]] | l # ls \<Rightarrow> (c # l) # ls))"

text \<open>\<open>int(s)\<close> on a string of decimal digits.\<close>

definition digit_val :: "char \<Rightarrow> int" where
  "digit_val c = (case map_of (zip digits [0, 1, 2, 3, 4, 5, 6, 7, 8, 9]) c of
                    Some d \<Rightarrow> d | None \<Rightarrow> 0)"

definition int_of_digits :: "string \<Rightarrow> int" where
  "int_of_digits s = foldl (\<lambda>a c. 10 * a + digit_val c) 0 s"

text \<open>\<open>os.path.join(a, b)\<close> for two components, with POSIX separators.\<close>

definition path_join :: "string \<Rightarrow> string \<Rightarrow> string" where
  "path_join a b =
     (if startswith b ''/'' then b
      else if a = [] \<or> endswith a ''/'' then a @ b
      else a @ ''/'' @ b)"

section \<open>Regular expressions\<close>

text \<open>
  The patterns of the parser and of the fixer are written in a small fragment of the
  syntax of Python's \<open>re\<close>: literals, a repeated character class (greedy or lazy),
  an alternative of literals, capture groups that do not nest, and \<open>^\<close>. A pattern is
  the list of its items; matching is by backtracking, in the order \<open>re\<close> tries the
  alternatives, so the first success is the match \<open>re\<close> reports.
\<close>

datatype cclass =
    Dot
  | Digit
  | Space
  | Word
  | OneOf string
  | NoneOf string
  | WordOr string

datatype item =
    Lit string
  | Rep cclass nat "nat option" bool
  | Alt "string list"
  | GOpen
  | GClose
  | Bol

type_synonym pattern = "item list"

text \<open>Membership in a class; \<open>ic\<close> is the flag \<open>re.IGNORECASE\<close>.\<close>

fun in_class :: "bool \<Rightarrow> cclass \<Rightarrow> char \<Rightarrow> bool" where
  "in_class ic Dot c = (c \<noteq> NL)"
| "in_class ic Digit c = is_digit_c c"
| "in_class ic Space c = py_space c"
| "in_class ic Word c = is_word_c c"
| "in_class ic (OneOf cs) c =
     (if ic then lower_c c \<in> set (lower cs) else c \<in> set cs)"
| "in_class ic (NoneOf cs) c =
     (if ic then lower_c c \<notin> set (lower cs) else c \<notin> set cs)"
| "in_class ic (WordOr cs) c =
     (is_word_c c \<or> (if ic then lower_c c \<in> set (lower cs) else c \<in> set cs))"

text \<open>The literal \<open>l\<close> is at the head of \<open>s\<close>, letters compared without case under \<open>ic\<close>.\<close>

fun lit_prefix :: "bool \<Rightarrow> string \<Rightarrow> string \<Rightarrow> bool" where
  "lit_prefix ic [] s = True"
| "lit_prefix ic (p # ps) [] = False"
| "lit_prefix ic (p # ps) (c # cs) =
     ((if ic then lower_c c = lower_c p else c = p) \<and> lit_prefix ic ps cs)"

text \<open>
  The numbers of characters a repetition may take at the head of \<open>s\<close>, in the order of
  trial: from the longest run down when greedy, from the shortest up when lazy.
\<close>

definition rep_counts :: "bool \<Rightarrow> cclass \<Rightarrow> nat \<Rightarrow> nat option \<Rightarrow> bool \<Rightarrow> string \<Rightarrow> nat list" where
  "rep_counts ic c mn mx greedy s =
     (let run = length (takeWhile (in_class ic c) s);
          hi = (case mx of None \<Rightarrow> run | Some x \<Rightarrow> min x run)
      in if greedy then rev [mn ..< Suc hi] else [mn ..< Suc hi])"

text \<open>The first success of \<open>f\<close> along a list of alternatives.\<close>

fun first_some :: "('a \<Rightarrow> 'b option) \<Rightarrow> 'a list \<Rightarrow> 'b option" where
  "first_some f [] = None"
| "first_some f (x # xs) = (case f x of Some y \<Rightarrow> Some y | None \<Rightarrow> first_some f xs)"

lemma first_some_cong [fundef_cong]:
  "xs = ys \<Longrightarrow> (\<And>x. x \<in> set ys \<Longrightarrow> f x = g x) \<Longrightarrow> first_some f xs = first_some g ys"
  by (induction ys arbitrary: xs) (auto split: option.splits)

text \<open>
  \<open>match_here ic items pos gstart caps s\<close>: the first way, in the order of
  backtracking, to match \<open>items\<close> at the head of \<open>s\<close>, which starts at offset \<open>pos\<close>
  of the subject; \<open>gstart\<close> is the input at the opening of the current group and
  \<open>caps\<close> the groups closed so far. The result is the list of the captured groups and
  the input left after the match.
\<close>

fun match_here ::
  "bool \<Rightarrow> pattern \<Rightarrow> nat \<Rightarrow> string \<Rightarrow> string list \<Rightarrow> string \<Rightarrow> (string list \<times> string) option"
where
  "match_here ic [] pos gstart caps s = Some (caps, s)"
| "match_here ic (Lit l # r) pos gstart caps s =
     (if lit_prefix ic l s
      then match_here ic r (pos + length l) gstart caps (drop (length l) s)
      else None)"
| "match_here ic (Rep c mn mx greedy # r) pos gstart caps s =
     first_some (\<lambda>k. match_here ic r (pos + k) gstart caps (drop k s))
                (rep_counts ic c mn mx greedy s)"
| "match_here ic (Alt ls # r) pos gstart caps s =
     first_some (\<lambda>l. if lit_prefix ic l s
                      then match_here ic r (pos + length l) gstart caps (drop (length l) s)
                      else None)
                ls"
| "match_here ic (GOpen # r) pos gstart caps s = match_here ic r pos s caps s"
| "match_here ic (GClose # r) pos gstart caps s =
     match_here ic r pos gstart (caps @ [take (length gstart - length s) gstart]) s"
| "match_here ic (Bol # r) pos gstart caps s =
     (if pos = 0 then match_here ic r pos gstart caps s else None)"

text \<open>
  \<open>re.search\<close>: the match at the leftmost position that has one. The result is
  \<open>group(0)\<close> and the list of the groups \<open>group(1)\<close>, \<open>group(2)\<close>, ...
\<close>

fun search_from :: "bool \<Rightarrow> pattern \<Rightarrow> nat \<Rightarrow> string \<Rightarrow> (string \<times> string list) option" where
  "search_from ic pat pos s =
     (case match_here ic pat pos s [] s of
        Some (caps, rest) \<Rightarrow> Some (take (length s - length rest) s, caps)
      | None \<Rightarrow> (case s of [] \<Rightarrow> None | c # cs \<Rightarrow> search_from ic pat (Suc pos) cs))"

definition re_search :: "bool \<Rightarrow> pattern \<Rightarrow> string \<Rightarrow> (string \<times> string list) option" where
  "re_search ic pat s = search_from ic pat 0 s"

section \<open>Error records\<close>

datatype ErrorType = SYNTAX | LINTING | INDENTATION | IMPORT | LOGIC | TYPE_ERROR | UNKNOWN

record ErrorInfo =
  "file" :: string
  line :: int
  type :: ErrorType
  message :: string

section \<open>The JavaScript error parser\<close>

text \<open>\<open>JavaScriptParser.error_patterns\<close>, in the order of the dictionary.\<close>

definition error_patterns :: "(ErrorType \<times> pattern list) list" where
  "error_patterns =
     [(SYNTAX,
        [[Lit ''SyntaxError''],
         [Lit ''Unexpected token''],
         [Lit ''missing )''],
         [Lit ''missing }''],
         [Lit ''missing ;''],
         [Lit ''Unexpected identifier'']]),
      (TYPE_ERROR,
        [[Lit ''TypeError''],
         [Lit ''Cannot read property'', Rep Dot 0 None True, Lit ''of undefined''],
         [Lit ''Cannot read properties of null''],
         [Lit ''is not a function''],
         [Lit ''is not defined'']]),
      (IMPORT,
        [[Lit ''Cannot find module''],
         [Lit ''Module not found''],
         [Lit ''Failed to resolve''],
         [Lit ''Cannot resolve module'']]),
      (LOGIC,
        [[Lit ''ReferenceError''],
         [Lit ''is not defined''],
         [Lit ''RangeError''],
         [Lit ''Maximum call stack'']])]"

text \<open>
  \<open>JavaScriptParser.file_line_patterns\<close>: a stack trace frame, the ESLint format and
  the generic format.
\<close>

definition stack_trace_pattern :: pattern where
  "stack_trace_pattern =
     [Lit ''at '', Rep Dot 0 None False, Lit ''('',
      GOpen, Rep (NoneOf '':'') 1 None True, GClose, Lit '':'',
      GOpen, Rep Digit 1 None True, GClose, Lit '':'',
      GOpen, Rep Digit 1 None True, GClose, Lit '')'']"

definition eslint_pattern :: pattern where
  "eslint_pattern =
     [Bol, Rep Space 0 None True,
      GOpen, Rep (OneOf [CHR ''/'', BSL]) 0 (Some 1) True,
             Rep (WordOr [CHR ''/'', BSL, CHR ''.'', CHR ''-'']) 1 None True,
             Lit ''.'', Alt [''js'', ''ts'', ''jsx'', ''tsx''], GClose, Lit '':'',
      GOpen, Rep Digit 1 None True, GClose, Lit '':'',
      GOpen, Rep Digit 1 None True, GClose]"

definition generic_pattern :: pattern where
  "generic_pattern =
     [Lit ''Error in '', GOpen, Rep (NoneOf '':'') 1 None True, GClose, Lit '':'',
      GOpen, Rep Digit 1 None True, GClose]"

definition file_line_patterns :: "pattern list" where
  "file_line_patterns = [stack_trace_pattern, eslint_pattern, generic_pattern]"

text \<open>\<open>JavaScriptParser._identify_error\<close>; \<open>combined\<close> is the joined context.\<close>

fun first_match :: "string \<Rightarrow> pattern list \<Rightarrow> string option" where
  "first_match combined [] = None"
| "first_match combined (p # ps) =
     (case re_search True p combined of
        Some (g0, groups) \<Rightarrow> Some g0
      | None \<Rightarrow> first_match combined ps)"

fun identify_in :: "string \<Rightarrow> (ErrorType \<times> pattern list) list \<Rightarrow> ErrorType \<times> string" where
  "identify_in combined [] = (UNKNOWN, ''Unknown error'')"
| "identify_in combined ((error_type, patterns) # rest) =
     (case first_match combined patterns of
        Some m \<Rightarrow> (error_type, m)
      | None \<Rightarrow> identify_in combined rest)"

definition identify_error :: "string \<Rightarrow> string list \<Rightarrow> ErrorType \<times> string" where
  "identify_error row context = identify_in (join_nl context) error_patterns"

text \<open>
  The conversion of a path of the container into a path of the host: it applies only when
  a repository path is given and is not empty (\<open>if repo_path:\<close>).
\<close>

definition convert_path :: "string option \<Rightarrow> string \<Rightarrow> string" where
  "convert_path repo_path current_file =
     (if startswith current_file ''/workspace''
      then (case repo_path of
              None \<Rightarrow> current_file
            | Some rp \<Rightarrow>
                if rp = [] then current_file
                else path_join rp (lstrip_slash (drop (length ''/workspace'') current_file)))
      else current_file)"

text \<open>
  The inner loop of \<open>parse_errors\<close> for one line of the output. A match inside
  \<open>node_modules\<close> goes on to the next pattern (\<open>continue\<close>); the first other match
  gives the record of the line and ends the loop (\<open>break\<close>). Every locator pattern has
  three or two groups, so a match always has \<open>group(1)\<close> and \<open>group(2)\<close>. The kind
  of an error is a member of an enumeration and never false, so \<open>if error_type:\<close>
  always appends.
\<close>

fun try_patterns :: "string option \<Rightarrow> string list \<Rightarrow> string \<Rightarrow> pattern list \<Rightarrow> ErrorInfo option" where
  "try_patterns repo_path context row [] = None"
| "try_patterns repo_path context row (p # ps) =
     (case re_search False p row of
        None \<Rightarrow> try_patterns repo_path context row ps
      | Some (g0, groups) \<Rightarrow>
          (case groups of
             g1 # g2 # gs \<Rightarrow>
               (let current_file = convert_path repo_path g1;
                    current_line = int_of_digits g2
                in if contains current_file ''node_modules''
                   then try_patterns repo_path context row ps
                   else (case identify_error row context of
                           (error_type, msg) \<Rightarrow>
                             Some \<lparr>file = current_file, line = current_line,
                                   type = error_type, message = msg\<rparr>))
           | _ \<Rightarrow> try_patterns repo_path context row ps))"

text \<open>
  The outer loop: the context of line \<open>i\<close> is \<open>lines[i:min(i+5, len(lines))]\<close>, the
  line itself and up to four lines after it.
\<close>

fun parse_lines :: "string option \<Rightarrow> string list \<Rightarrow> ErrorInfo list" where
  "parse_lines repo_path [] = []"
| "parse_lines repo_path (row # rest) =
     (case try_patterns repo_path (take 5 (row # rest)) row file_line_patterns of
        None \<Rightarrow> parse_lines repo_path rest
      | Some e \<Rightarrow> e # parse_lines repo_path rest)"

definition parse_errors :: "string \<Rightarrow> string option \<Rightarrow> ErrorInfo list" where
  "parse_errors test_output repo_path = parse_lines repo_path (split_nl test_output)"

text \<open>
  The body of the outer loop at index \<open>i\<close>: what the pass over the locator patterns
  gives for \<open>lines[i]\<close> with its context \<open>lines[i:min(i+5, len(lines))]\<close>.
\<close>

definition line_record :: "string option \<Rightarrow> string list \<Rightarrow> nat \<Rightarrow> ErrorInfo option" where
  "line_record repo_path lines i =
     try_patterns repo_path (take 5 (drop i lines)) (lines ! i) file_line_patterns"

section \<open>Files\<close>

text \<open>
  The fixer reads and writes source files by path. A file has its text and the two
  permissions \<open>open\<close> checks; the file system maps the paths that exist to their files.
\<close>

record file_entry =
  content :: string
  readable :: bool
  writable :: bool

type_synonym filesystem = "string \<rightharpoonup> file_entry"

text \<open>
  Reading in text mode translates \<open>\r\n\<close> and a lone \<open>\r\<close> to \<open>\n\<close> (universal
  newlines).
\<close>

fun universal_newlines :: "string \<Rightarrow> string" where
  "universal_newlines [] = []"
| "universal_newlines [c] = [if c = CR then NL else c]"
| "universal_newlines (c # d # ds) =
     (if c = CR \<and> d = NL then NL # universal_newlines ds
      else if c = CR then NL # universal_newlines (d # ds)
      else c # universal_newlines (d # ds))"

text \<open>The lines of a text, each with its line feed; the last one may lack it.\<close>

fun keepends :: "string \<Rightarrow> string list" where
  "keepends [] = []"
| "keepends (c # cs) =
     (if c = NL then [NL] # keepends cs
      else (case keepends cs of [] \<Rightarrow> [[c]] | l # ls \<Rightarrow> (c # l) # ls))"

text \<open>
  \<open>open(path, 'r').readlines()\<close>: \<open>None\<close> when the file is missing or may not be
  read; both raise in the source.
\<close>

definition readlines :: "filesystem \<Rightarrow> string \<Rightarrow> string list option" where
  "readlines fs path =
     (case fs path of
        None \<Rightarrow> None
      | Some f \<Rightarrow> if readable f then Some (keepends (universal_newlines (content f))) else None)"

text \<open>
  \<open>open(path, 'w').writelines(lines)\<close>: \<open>None\<close> when the file may not be written,
  and then it is left as it was. A missing file is created.
\<close>

definition writelines :: "filesystem \<Rightarrow> string \<Rightarrow> string list \<Rightarrow> filesystem option" where
  "writelines fs path lines =
     (case fs path of
        None \<Rightarrow> Some (fs(path \<mapsto> \<lparr>content = concat lines, readable = True, writable = True\<rparr>))
      | Some f \<Rightarrow> if writable f then Some (fs(path \<mapsto> f\<lparr>content := concat lines\<rparr>)) else None)"

section \<open>Python lists\<close>

text \<open>
  The position \<open>xs[i]\<close> reads and writes: a negative index counts from the end, and an
  index out of range raises (\<open>None\<close>).
\<close>

definition py_index :: "'a list \<Rightarrow> int \<Rightarrow> nat option" where
  "py_index xs i =
     (if 0 \<le> i \<and> i < int (length xs) then Some (nat i)
      else if i < 0 \<and> - int (length xs) \<le> i then Some (nat (int (length xs) + i))
      else None)"

text \<open>\<open>xs.insert(i, x)\<close>: the index is clipped to the list, it never raises.\<close>

definition py_insert :: "'a list \<Rightarrow> int \<Rightarrow> 'a \<Rightarrow> 'a list" where
  "py_insert xs i x =
     (let n = int (length xs);
          j = (if i < 0 then max 0 (n + i) else min i n)
      in take (nat j) xs @ x # drop (nat j) xs)"

text \<open>
  \<open>s.replace(old, new)\<close> and \<open>s.replace(old, new, 1)\<close>, for an \<open>old\<close> that is not
  empty (the fixer replaces \<open>'const '\<close> and \<open>'.'\<close>).
\<close>

fun replace_all :: "string \<Rightarrow> string \<Rightarrow> string \<Rightarrow> string" where
  "replace_all old new [] = []"
| "replace_all old new (c # cs) =
     (if startswith (c # cs) old
      then new @ replace_all old new (drop (length old - 1) cs)
      else c # replace_all old new cs)"

fun replace_first :: "string \<Rightarrow> string \<Rightarrow> string \<Rightarrow> string" where
  "replace_first old new [] = []"
| "replace_first old new (c # cs) =
     (if startswith (c # cs) old
      then new @ drop (length old - 1) cs
      else c # replace_first old new cs)"

text \<open>\<open>len(line) - len(line.lstrip())\<close>.\<close>

definition indent_of :: "string \<Rightarrow> nat" where
  "indent_of row = length row - length (lstrip row)"

section \<open>The JavaScript fixer\<close>

text \<open>A fix returns whether it reports success, and the file system it leaves.\<close>

type_synonym fix_result = "bool \<times> filesystem"

text \<open>
  The three fixers share their frame: read the lines, take the reported line (the reading
  and the indexing raise inside \<open>try\<close>), edit the lines, write them back and return
  \<open>True\<close>; any exception returns \<open>False\<close>. \<open>with_lines\<close> is that frame, and
  \<open>edit line_idx k row lines\<close> the edit between the reading and the writing:
  \<open>line_idx\<close> is the index as the source computes it, \<open>k\<close> the position it denotes
  and \<open>row\<close> the line there.
\<close>

definition with_lines ::
  "filesystem \<Rightarrow> ErrorInfo \<Rightarrow> (int \<Rightarrow> nat \<Rightarrow> string \<Rightarrow> string list \<Rightarrow> string list) \<Rightarrow> fix_result" where
  "with_lines fs error edit =
     (case readlines fs (file error) of
        None \<Rightarrow> (False, fs)
      | Some lines \<Rightarrow>
          (let line_idx = line error - 1 in
           case py_index lines line_idx of
             None \<Rightarrow> (False, fs)
           | Some k \<Rightarrow>
               (case writelines fs (file error) (edit line_idx k (lines ! k) lines) of
                  None \<Rightarrow> (False, fs)
                | Some fs' \<Rightarrow> (True, fs'))))"

text \<open>The edit of \<open>_fix_syntax\<close>: the first rule of the chain whose test holds.\<close>

definition syntax_edit :: "string \<Rightarrow> int \<Rightarrow> nat \<Rightarrow> string \<Rightarrow> string list \<Rightarrow> string list" where
  "syntax_edit msg line_idx k row lines =
     (if contains (lower msg) ''missing ;'' then
        (if \<not> (endswith (rstrip row) '';'' \<or> endswith (rstrip row) ''{'' \<or>
                endswith (rstrip row) ''}'' \<or> endswith (rstrip row) '','')
         then lines[k := rstrip row @ '';'' @ [NL]]
         else lines)
      else if contains (lower msg) ''missing }'' then
        py_insert lines (line_idx + 1) (replicate (indent_of row) CHR '' '' @ ''}'' @ [NL])
      else if contains row ''const'' \<and> \<not> contains row ''='' then
        lines[k := replace_all ''const '' ''let '' row]
      else lines)"

definition fix_syntax :: "filesystem \<Rightarrow> ErrorInfo \<Rightarrow> fix_result" where
  "fix_syntax fs error = with_lines fs error (syntax_edit (message error))"

text \<open>The pattern \<open>'(\w+)' is not defined\<close> of \<open>_fix_type_error\<close>.\<close>

definition not_defined_pattern :: pattern where
  "not_defined_pattern =
     [Lit [CHR 0x27], GOpen, Rep Word 1 None True, GClose,
      Lit ([CHR 0x27] @ '' is not defined'')]"

text \<open>The edit of \<open>_fix_type_error\<close>.\<close>

definition type_error_edit :: "string \<Rightarrow> int \<Rightarrow> nat \<Rightarrow> string \<Rightarrow> string list \<Rightarrow> string list" where
  "type_error_edit msg line_idx k row lines =
     (if contains (lower msg) ''cannot read property'' then
        (if contains row ''.'' \<and> \<not> contains row ''?.''
         then lines[k := replace_first ''.'' ''?.'' row]
         else lines)
      else if contains (lower msg) ''is not defined'' then
        (case re_search False not_defined_pattern msg of
           Some (g0, var_name # gs) \<Rightarrow>
             py_insert lines line_idx
               (replicate (indent_of row) CHR '' '' @ ''const '' @ var_name @ '' = null;'' @ [NL])
         | _ \<Rightarrow> lines)
      else lines)"

definition fix_type_error :: "filesystem \<Rightarrow> ErrorInfo \<Rightarrow> fix_result" where
  "fix_type_error fs error = with_lines fs error (type_error_edit (message error))"

text \<open>The edit of \<open>_fix_import\<close>.\<close>

definition import_edit :: "int \<Rightarrow> nat \<Rightarrow> string \<Rightarrow> string list \<Rightarrow> string list" where
  "import_edit line_idx k row lines =
     (if contains (lower row) ''import'' \<or> contains row ''require''
      then lines[k := ''// '' @ row]
      else lines)"

definition fix_import :: "filesystem \<Rightarrow> ErrorInfo \<Rightarrow> fix_result" where
  "fix_import fs error = with_lines fs error import_edit"

text \<open>\<open>JavaScriptFixer.fix_error\<close>.\<close>

definition fix_error :: "filesystem \<Rightarrow> ErrorInfo \<Rightarrow> fix_result" where
  "fix_error fs error =
     (if type error = SYNTAX then fix_syntax fs error
      else if type error = TYPE_ERROR then fix_type_error fs error
      else if type error = IMPORT then fix_import fs error
      else (False, fs))"

text \<open>
  Whether an edit of the fixer applies to the reported line: the condition of the rule the
  chain of tests selects holds. When none applies the lines are written back as read.
\<close>

definition syntax_rule_matches :: "string \<Rightarrow> string \<Rightarrow> bool" where
  "syntax_rule_matches msg row =
     (if contains (lower msg) ''missing ;'' then
        \<not> (endswith (rstrip row) '';'' \<or> endswith (rstrip row) ''{'' \<or>
           endswith (rstrip row) ''}'' \<or> endswith (rstrip row) '','')
      else if contains (lower msg) ''missing }'' then True
      else contains row ''const'' \<and> \<not> contains row ''='')"

text \<open>A file system with one readable and writable file, and the text of a file.\<close>

definition one_file :: "string \<Rightarrow> string \<Rightarrow> filesystem" where
  "one_file path text = [path \<mapsto> \<lparr>content = text, readable = True, writable = True\<rparr>]"

definition file_text :: "filesystem \<Rightarrow> string \<Rightarrow> string option" where
  "file_text fs path = map_option content (fs path)"

section \<open>The remediation loop\<close>

text \<open>
  Modelled from the spec: the Remediation Orchestrator (the retry loop of
  \<open>runRemediation\<close>, its status derivation and the \<open>RunResult\<close> it fills) is not
  among the sources; the definitions of this section follow sections 3, 4.5 and 7 of the
  specification. The sandbox run with the parser, and the fix engine with the commit, are
  services the loop calls; they are parameters that act on the working copy \<open>'w\<close>.
  Cloning, branch creation and publishing lie outside the loop and are not modelled, and
  of the \<open>RunResult\<close> the fields the loop computes are kept (the repository and the
  branch name pass through a run unchanged, a \<open>FixRecord\<close> is kept without its commit
  message).
\<close>

datatype run_error = InfrastructureError

datatype run_status = PASSED | PARTIAL | FAILED

datatype fix_status = Fixed | Unfixed

record FixRecord =
  fixed_error :: ErrorInfo
  fix_status :: fix_status

record RunResult =
  total_failures :: nat
  total_fixes :: nat
  iterations :: nat
  status :: run_status
  "fixes" :: "FixRecord list"

type_synonym 'w test_service = "'w \<Rightarrow> run_error + ErrorInfo list"

type_synonym 'w fix_service = "'w \<Rightarrow> ErrorInfo \<Rightarrow> bool \<times> 'w"

text \<open>
  Modelled from the spec: the FIXING and COMMITTING steps of one iteration. Every error of
  the parse result gets one fix attempt and one \<open>FixRecord\<close>.
\<close>

fun fix_all :: "'w fix_service \<Rightarrow> 'w \<Rightarrow> ErrorInfo list \<Rightarrow> FixRecord list \<times> 'w" where
  "fix_all fix w [] = ([], w)"
| "fix_all fix w (e # es) =
     (case fix w e of
        (ok, w1) \<Rightarrow>
          (case fix_all fix w1 es of
             (rs, w2) \<Rightarrow>
               (\<lparr>fixed_error = e, fix_status = (if ok then Fixed else Unfixed)\<rparr> # rs, w2)))"

text \<open>Modelled from the spec: the number of successful fixes among the records.\<close>

definition count_fixed :: "FixRecord list \<Rightarrow> nat" where
  "count_fixed rs = length (filter (\<lambda>r. fix_status r = Fixed) rs)"

text \<open>
  Modelled from the spec: the state of the loop. \<open>last_parse\<close> is the result of the most
  recent PARSING step, \<open>None\<close> before the first one.
\<close>

record 'w loop_state =
  working_copy :: 'w
  iteration_count :: nat
  fix_count :: nat
  fix_records :: "FixRecord list"
  last_parse :: "ErrorInfo list option"
  loop_status :: run_status

text \<open>
  Modelled from the spec: the status of a run that ends with errors left, \<open>FAILED\<close>
  when no fix was ever applied and \<open>PARTIAL\<close> otherwise.
\<close>

definition remaining_status :: "nat \<Rightarrow> run_status" where
  "remaining_status n_fixes = (if n_fixes = 0 then FAILED else PARTIAL)"

text \<open>
  Modelled from the spec: the loop of section 4.5. The first argument is what is left of
  the iteration budget. An iteration runs the tests and parses the output; an
  infrastructure error aborts the run. Zero errors end the loop at once with \<open>PASSED\<close>.
  Otherwise the errors are fixed and committed; an iteration without a successful fix ends
  the loop (no further iteration can help), and so does an exhausted budget. At these two
  exits errors remain.
\<close>

fun remediation_loop ::
  "'w test_service \<Rightarrow> 'w fix_service \<Rightarrow> nat \<Rightarrow> 'w loop_state \<Rightarrow> run_error + 'w loop_state" where
  "remediation_loop test fix 0 st =
     Inr (st\<lparr>loop_status := remaining_status (fix_count st)\<rparr>)"
| "remediation_loop test fix (Suc budget) st =
     (case test (working_copy st) of
        Inl err \<Rightarrow> Inl err
      | Inr errors \<Rightarrow>
          (let st1 = st\<lparr>iteration_count := iteration_count st + 1, last_parse := Some errors\<rparr>
           in if errors = [] then Inr (st1\<lparr>loop_status := PASSED\<rparr>)
              else (case fix_all fix (working_copy st1) errors of
                      (rs, w') \<Rightarrow>
                        (let st2 = st1\<lparr>working_copy := w',
                                       fix_count := fix_count st1 + count_fixed rs,
                                       fix_records := fix_records st1 @ rs\<rparr>
                         in if count_fixed rs = 0
                            then Inr (st2\<lparr>loop_status := remaining_status (fix_count st2)\<rparr>)
                            else remediation_loop test fix budget st2))))"

text \<open>Modelled from the spec: the state before the first iteration.\<close>

definition initial_state :: "'w \<Rightarrow> 'w loop_state" where
  "initial_state w =
     \<lparr>working_copy = w, iteration_count = 0, fix_count = 0, fix_records = [],
      last_parse = None, loop_status = FAILED\<rparr>"

text \<open>
  Modelled from the spec: the result of a run. \<open>total_failures\<close> counts the final parse,
  \<open>total_fixes\<close> the successful fixes of all iterations.
\<close>

definition result_of :: "'w loop_state \<Rightarrow> RunResult" where
  "result_of st =
     \<lparr>total_failures = (case last_parse st of None \<Rightarrow> 0 | Some errors \<Rightarrow> length errors),
      total_fixes = fix_count st,
      iterations = iteration_count st,
      status = loop_status st,
      fixes = fix_records st\<rparr>"

text \<open>
  Modelled from the spec: \<open>runRemediation\<close>, from the working copy of the cloned
  repository on. A run ends with an infrastructure error or with its \<open>RunResult\<close>.
\<close>

definition runRemediation ::
  "'w test_service \<Rightarrow> 'w fix_service \<Rightarrow> 'w \<Rightarrow> nat \<Rightarrow> run_error + RunResult" where
  "runRemediation test fix w maxRetries =
     (case remediation_loop test fix maxRetries (initial_state w) of
        Inl err \<Rightarrow> Inl err
      | Inr st \<Rightarrow> Inr (result_of st))"

text \<open>
  Modelled from the spec: the status as a function of the final error count and the
  cumulative fix count (section 8).
\<close>

definition derive_status :: "nat \<Rightarrow> nat \<Rightarrow> run_status" where
  "derive_status final_errors n_fixes =
     (if final_errors = 0 then PASSED
      else if n_fixes = 0 then FAILED
      else PARTIAL)"

text \<open>
  A small instance of the services, for evaluation: the working copy is the number of
  errors the next test run reports, and a fix succeeds as long as more than one is left.
\<close>

definition demo_error :: ErrorInfo where
  "demo_error = \<lparr>file = ''a.js'', line = 1, type = SYNTAX, message = ''missing ;''\<rparr>"

definition demo_test :: "nat test_service" where
  "demo_test w = Inr (replicate w demo_error)"

definition demo_fix :: "nat fix_service" where
  "demo_fix w e = (if 1 < w then (True, w - 1) else (False, w))"

section \<open>The branch name\<close>

text \<open>
  The function \<open>branchName\<close> of the Git pipeline is not among the sources (the backend's
  Git utilities are missing; the run form only shows a preview of the name), so it is
  modelled from the specification. Section 4.6: the branch name is a pure function of the
  team and leader identifiers, \<open>uppercase, whitespace collapsed to a single separator,
  joined with the literal suffix marking an automated fix branch\<close>; section 6:
  \<open>{TEAM}_{LEADER}_AI_FIX (uppercased, spaces collapsed to _)\<close>.

  The model covers identifiers written in ASCII: printable characters and white space.
  On these every platform has the same case mapping and the same white space; what
  \<open>uppercase\<close> and \<open>whitespace\<close> mean for other characters is not modelled, and
  nothing is stated about identifiers that contain one.
\<close>

text \<open>
  Modelled from the spec: the white space of ASCII text, for the word
  \<open>whitespace\<close>: tab, line feed, vertical tab, form feed, carriage return and space.
\<close>

definition white_space :: "char \<Rightarrow> bool" where
  "white_space c = (c \<in> set [CHR 0x09, CHR 0x0A, CHR 0x0B, CHR 0x0C, CHR 0x0D, CHR 0x20])"

text \<open>
  Modelled from the spec: the identifiers that the model covers, white space and the
  printable ASCII characters \<open>0x21\<close> to \<open>0x7E\<close>.
\<close>

definition ascii_text :: "string \<Rightarrow> bool" where
  "ascii_text s =
     list_all (\<lambda>c. white_space c \<or> (0x21 \<le> (of_char c :: nat) \<and> (of_char c :: nat) \<le> 0x7E)) s"

text \<open>
  Modelled from the spec: \<open>uppercase\<close>, on ASCII text: a lower-case letter becomes the
  upper-case letter, every other character stays.
\<close>

definition upper_c :: "char \<Rightarrow> char" where
  "upper_c c = (case map_of (zip lowers uppers) c of Some u \<Rightarrow> u | None \<Rightarrow> c)"

text \<open>Modelled from the spec: \<open>uppercase\<close> on an identifier, character by character.\<close>

definition upper :: "string \<Rightarrow> string" where
  "upper s = map upper_c s"

text \<open>
  Modelled from the spec: \<open>whitespace collapsed to a single separator\<close>. Every maximal
  run of white space becomes one underscore; \<open>in_run\<close> tells that the character before
  was white space.
\<close>

fun collapse_space :: "bool \<Rightarrow> string \<Rightarrow> string" where
  "collapse_space in_run [] = []"
| "collapse_space in_run (c # cs) =
     (if white_space c
      then (if in_run then collapse_space True cs else CHR ''_'' # collapse_space True cs)
      else c # collapse_space False cs)"

text \<open>Modelled from the spec: one identifier, \<open>uppercased, spaces collapsed to _\<close>.\<close>

definition normalise :: "string \<Rightarrow> string" where
  "normalise s = collapse_space False (upper s)"

text \<open>
  Modelled from the spec: \<open>branchName(team, leader)\<close>, the two normalised identifiers
  \<open>joined with the literal suffix\<close> as \<open>{TEAM}_{LEADER}_AI_FIX\<close>.
\<close>

definition branchName :: "string \<Rightarrow> string \<Rightarrow> string" where
  "branchName team leader = normalise team @ ''_'' @ normalise leader @ ''_AI_FIX''"

section \<open>JavaScript numbers\<close>

text \<open>
  A JavaScript number is an IEEE 754 double. The results page divides and multiplies
  counts, so the numbers that occur are not negative: a finite one is \<open>Num m e\<close> with
  the value \<open>m * 2 ^ e\<close>, and a division by zero gives \<open>Infinity\<close> or \<open>NaN\<close>.
  Arithmetic rounds the exact result to the nearest double, a tie to the one with the even
  significand. The counts are natural numbers; a double holds them exactly below
  \<open>2 ^ 53\<close>. The exponent range of a double is not modelled: the operands are counts
  and the constant 100, far from overflow and underflow.
\<close>

datatype js_number = Num nat int | Infinity | NaN

text \<open>The number of binary digits of \<open>n\<close>.\<close>

function bitlen :: "nat \<Rightarrow> nat" where
  "bitlen n = (if n = 0 then 0 else Suc (bitlen (n div 2)))"
  by pat_completeness auto
termination
  by (relation "measure id") auto

declare bitlen.simps [simp del]

text \<open>The integer nearest to \<open>num / den\<close>, a tie to the even one.\<close>

definition round_half_even :: "nat \<Rightarrow> nat \<Rightarrow> nat" where
  "round_half_even num den =
     (let q = num div den; r = num mod den
      in if 2 * r < den then q
         else if den < 2 * r then q + 1
         else if even q then q else q + 1)"

text \<open>The exponent of \<open>a / b\<close>: the \<open>k\<close> with \<open>2 ^ k \<le> a / b < 2 ^ (k + 1)\<close>.\<close>

definition ilog2 :: "nat \<Rightarrow> nat \<Rightarrow> int" where
  "ilog2 a b =
     (let d = int (bitlen a) - int (bitlen b)
      in if 0 \<le> d
         then (if b * 2 ^ nat d \<le> a then d else d - 1)
         else (if b \<le> a * 2 ^ nat (- d) then d else d - 1))"

text \<open>
  The double nearest to \<open>a / b\<close>, as significand and exponent: the significand has 53
  binary digits, so the last one weighs \<open>2 ^ (ilog2 a b - 52)\<close>.
\<close>

definition to_double :: "nat \<Rightarrow> nat \<Rightarrow> nat \<times> int" where
  "to_double a b =
     (if a = 0 then (0, 0)
      else (let e = ilog2 a b - 52
            in if e \<le> 0 then (round_half_even (a * 2 ^ nat (- e)) b, e)
               else (round_half_even a (b * 2 ^ nat e), e)))"

text \<open>\<open>a / b\<close> on two counts.\<close>

definition js_div :: "nat \<Rightarrow> nat \<Rightarrow> js_number" where
  "js_div a b =
     (if b = 0 then (if a = 0 then NaN else Infinity)
      else (case to_double a b of (m, e) \<Rightarrow> Num m e))"

text \<open>\<open>x * k\<close> for a count \<open>k\<close>.\<close>

fun js_mul :: "js_number \<Rightarrow> nat \<Rightarrow> js_number" where
  "js_mul (Num m e) k =
     (case (if 0 \<le> e then to_double (m * k * 2 ^ nat e) 1
            else to_double (m * k) (2 ^ nat (- e)))
      of (m', e') \<Rightarrow> Num m' e')"
| "js_mul Infinity k = (if k = 0 then NaN else Infinity)"
| "js_mul NaN k = NaN"

text \<open>\<open>Math.round(x)\<close>: the nearest integer, a tie upwards; it is exact.\<close>

fun Math_round :: "js_number \<Rightarrow> js_number" where
  "Math_round (Num m e) =
     (if 0 \<le> e then Num (m * 2 ^ nat e) 0
      else Num ((2 * m + 2 ^ nat (- e)) div 2 ^ (nat (- e) + 1)) 0)"
| "Math_round Infinity = Infinity"
| "Math_round NaN = NaN"

section \<open>The results page\<close>

text \<open>
  The number the Success Rate card of \<open>ResultsPage\<close> shows before the percent sign.
\<close>

definition success_rate :: "RunResult \<Rightarrow> js_number" where
  "success_rate run =
     (if 0 < total_failures run
      then Math_round (js_mul (js_div (total_fixes run) (total_failures run)) 100)
      else Num 0 0)"

text \<open>A run with the given counts and status.\<close>

definition run_with :: "nat \<Rightarrow> nat \<Rightarrow> run_status \<Rightarrow> RunResult" where
  "run_with n_fixes n_failures st =
     \<lparr>total_failures = n_failures, total_fixes = n_fixes, iterations = 1, status = st,
      fixes = []\<rparr>"

text \<open>
  The percentage in exact arithmetic: \<open>100 * a / b\<close> rounded to the nearest integer, a
  tie upwards.
\<close>

definition exact_percent :: "nat \<Rightarrow> nat \<Rightarrow> nat" where
  "exact_percent a b = (200 * a + b) div (2 * b)"

section \<open>Language detection and the plugin registry\<close>

text \<open>
  \<open>detect_language(repo_path)\<close> looks only at the entries directly inside the checked-out
  repository, so a repository is given by the list of the names of its top-level entries.
\<close>

type_synonym repo_listing = "string list"

text \<open>
  The wildcard match of \<open>glob.glob\<close> for the marker patterns of the table, which use
  \<open>*\<close> and literal characters only: \<open>*\<close> matches any run of characters, but a name
  that starts with a dot is not matched by a pattern that does not.
\<close>

fun wild :: "string \<Rightarrow> string \<Rightarrow> bool" where
  "wild [] s = (s = [])"
| "wild (p # ps) [] = (p = CHR ''*'' \<and> wild ps [])"
| "wild (p # ps) (c # cs) =
     (if p = CHR ''*'' then wild ps (c # cs) \<or> wild (p # ps) cs
      else p = c \<and> wild ps cs)"

definition glob_match :: "string \<Rightarrow> string \<Rightarrow> bool" where
  "glob_match pat name =
     (wild pat name \<and> \<not> (startswith name ''.'' \<and> \<not> startswith pat ''.''))"

text \<open>The \<open>markers\<close> dictionary, in its insertion order.\<close>

definition markers :: "(string \<times> string list) list" where
  "markers =
     [(''python'', [''requirements.txt'', ''setup.py'', ''pyproject.toml'', ''Pipfile'']),
      (''javascript'', [''package.json'']),
      (''typescript'', [''tsconfig.json'']),
      (''java'', [''pom.xml'', ''build.gradle'', ''build.gradle.kts'']),
      (''go'', [''go.mod'', ''go.sum'']),
      (''rust'', [''Cargo.toml'']),
      (''ruby'', [''Gemfile'', ''Rakefile'']),
      (''csharp'', [''*.csproj'', ''*.sln''])]"

text \<open>
  The test of the inner loop: a marker with \<open>*\<close> is globbed, any other one must exist.
\<close>

definition marker_present :: "repo_listing \<Rightarrow> string \<Rightarrow> bool" where
  "marker_present entries marker_file =
     (if contains marker_file ''*''
      then list_ex (glob_match marker_file) entries
      else list_ex (\<lambda>e. e = marker_file) entries)"

fun detect_in :: "repo_listing \<Rightarrow> (string \<times> string list) list \<Rightarrow> string" where
  "detect_in entries [] = ''unknown''"
| "detect_in entries ((lang, files) # rest) =
     (if list_ex (marker_present entries) files then lang else detect_in entries rest)"

definition detect_language :: "repo_listing \<Rightarrow> string" where
  "detect_language entries = detect_in entries markers"

datatype plugin = PythonPlugin | JavaScriptPlugin

text \<open>\<open>LANGUAGE_REGISTRY\<close>.\<close>

definition LANGUAGE_REGISTRY :: "(string \<times> plugin) list" where
  "LANGUAGE_REGISTRY =
     [(''python'', PythonPlugin),
      (''javascript'', JavaScriptPlugin),
      (''typescript'', JavaScriptPlugin)]"

text \<open>
  \<open>get_language_plugin\<close> never raises: a language that is not in the registry gets the
  Python plugin.
\<close>

definition get_language_plugin :: "string \<Rightarrow> plugin" where
  "get_language_plugin language =
     (case map_of LANGUAGE_REGISTRY language of
        Some plugin_class \<Rightarrow> plugin_class
      | None \<Rightarrow> PythonPlugin)"

text \<open>No marker of any registered language is present in the repository.\<close>

definition no_marker :: "repo_listing \<Rightarrow> bool" where
  "no_marker entries =
     (\<not> list_ex (\<lambda>(lang, files). list_ex (marker_present entries) files) markers)"

text \<open>
  The use of the plugin in \<open>DockerRunner.run\<close>: the language is detected, its plugin
  is looked up, the plugin's parser reads the test output and the plugin's fixer is called
  on every error it reports. The parser of the Python plugin wraps code that is not part of
  the plugin architecture described here and is a parameter.
\<close>

type_synonym parser = "string \<Rightarrow> string option \<Rightarrow> ErrorInfo list"

fun get_parser :: "parser \<Rightarrow> plugin \<Rightarrow> parser" where
  "get_parser python_parser PythonPlugin = python_parser"
| "get_parser python_parser JavaScriptPlugin = parse_errors"

text \<open>The calls of \<open>fixer.fix_error\<close> of one run: the plugin of the fixer and the error.\<close>

definition run_fix_calls ::
  "parser \<Rightarrow> repo_listing \<Rightarrow> string \<Rightarrow> string option \<Rightarrow> (plugin \<times> ErrorInfo) list" where
  "run_fix_calls python_parser entries output repo_path =
     (let language = detect_language entries;
          language_plugin = get_language_plugin language;
          errors = get_parser python_parser language_plugin output repo_path
      in map (\<lambda>error. (language_plugin, error)) errors)"

section \<open>Evaluation of the character tables\<close>

text \<open>
  The lower-case mapping on the bits of a character, for evaluation: an upper-case letter
  has the code \<open>0x40 + k\<close> with \<open>1 \<le> k \<le> 26\<close>, and its lower-case letter sets
  bit 5.
\<close>

lemma lower_c_bits:
  "lower_c (Char b0 b1 b2 b3 b4 b5 b6 b7) =
     (if \<not> b7 \<and> b6 \<and> \<not> b5 \<and> (b0 \<or> b1 \<or> b2 \<or> b3 \<or> b4) \<and>
         \<not> (b4 \<and> b3 \<and> (b2 \<or> (b1 \<and> b0)))
      then Char b0 b1 b2 b3 b4 True b6 b7 else Char b0 b1 b2 b3 b4 b5 b6 b7)"
  by (cases b0; cases b1; cases b2; cases b3; cases b4; cases b5; cases b6; cases b7;
      simp add: lower_c_def uppers_def lowers_def)

lemmas char_eval = lower_c_bits is_upper_c_def is_lower_c_def is_digit_c_def py_space_def
  is_word_c_def NL_def BSL_def uppers_def lowers_def digits_def digit_val_def
  int_of_digits_def

lemmas regex_eval = rep_counts_def re_search_def Let_def

lemmas parser_eval = parse_errors_def file_line_patterns_def stack_trace_pattern_def
  eslint_pattern_def generic_pattern_def identify_error_def error_patterns_def
  convert_path_def path_join_def endswith_def lstrip_slash_def

section \<open>Properties of the parser\<close>

text \<open>
  A record of a line comes from a match of one of the locator patterns on that line; its
  path is the converted first group, its line the second group, and the path does not
  contain \<open>node_modules\<close>.
\<close>

lemma try_patterns_Some:
  "try_patterns repo_path context row ps = Some e \<Longrightarrow>
   \<exists>p \<in> set ps. \<exists>g0 g1 g2 gs.
     re_search False p row = Some (g0, g1 # g2 # gs) \<and>
     file e = convert_path repo_path g1 \<and>
     line e = int_of_digits g2 \<and>
     \<not> contains (file e) ''node_modules''"
proof (induction ps)
  case Nil
  then show ?case by simp
next
  case (Cons p ps)
  show ?case
  proof (cases "re_search False p row")
    case None
    with Cons show ?thesis by auto
  next
    case (Some r)
    obtain g0 groups where r: "r = (g0, groups)" by (cases r)
    show ?thesis
    proof (cases groups)
      case Nil
      with Cons Some r show ?thesis by auto
    next
      case (Cons g1 rest)
      note c1 = this
      show ?thesis
      proof (cases rest)
        case Nil
        with Cons.prems Cons.IH Some r c1 show ?thesis by auto
      next
        case (Cons g2 gs)
        show ?thesis
        proof (cases "contains (convert_path repo_path g1) ''node_modules''")
          case True
          with Cons.prems Cons.IH Some r c1 Cons show ?thesis by auto
        next
          case False
          with Cons.prems Some r c1 Cons show ?thesis
            by (auto simp: Let_def split: prod.splits)
        qed
      qed
    qed
  qed
qed

lemma parse_lines_mem:
  "e \<in> set (parse_lines repo_path lns) \<Longrightarrow>
   \<exists>row \<in> set lns. \<exists>ctx. try_patterns repo_path ctx row file_line_patterns = Some e"
proof (induction lns)
  case Nil
  then show ?case by simp
next
  case (Cons a lns)
  show ?case
  proof (cases "try_patterns repo_path (take 5 (a # lns)) a file_line_patterns")
    case None
    with Cons show ?thesis by auto
  next
    case (Some x)
    with Cons show ?thesis by auto
  qed
qed

lemma startswith_append: "startswith (a @ b) a"
  by (induction a) auto

lemma startswith_dropWhile_slash: "\<not> startswith (lstrip_slash s) ''/''"
  by (induction s) (auto simp: lstrip_slash_def)

lemma endswith_slash: "rp \<noteq> [] \<Longrightarrow> endswith rp ''/'' = (last rp = CHR ''/'')"
  by (cases rp rule: rev_cases) (auto simp: endswith_def)

lemma convert_path_rooted:
  "rp \<noteq> [] \<Longrightarrow>
   convert_path (Some rp) (''/workspace'' @ rel) =
     (if last rp = CHR ''/'' then rp else rp @ ''/'') @ lstrip_slash rel"
proof -
  assume rp: "rp \<noteq> []"
  have s: "startswith (''/workspace'' @ rel) ''/workspace''"
    by (rule startswith_append)
  have d: "drop (length ''/workspace'') (''/workspace'' @ rel) = rel"
    by simp
  show ?thesis
    unfolding convert_path_def path_join_def
    using rp s startswith_dropWhile_slash [of rel] endswith_slash [OF rp]
    by (simp only: d if_True if_False option.case simp_thms refl split: if_splits) auto
qed

lemma convert_path_other: "\<not> startswith f ''/workspace'' \<Longrightarrow> convert_path rp f = f"
  by (simp add: convert_path_def)

text \<open>
  The outer loop in index form, and the inner loop as a search for the first locator
  pattern that matches with a path outside \<open>node_modules\<close>.
\<close>

lemma map_filter_app:
  "List.map_filter f (xs @ ys) = List.map_filter f xs @ List.map_filter f ys"
  by (simp add: List.map_filter_def)

lemma map_filter_map_fun:
  "List.map_filter f (map g xs) = List.map_filter (\<lambda>x. f (g x)) xs"
  by (induction xs) (simp_all add: List.map_filter_simps split: option.splits)

lemma parse_lines_rows:
  "parse_lines repo lns =
     List.map_filter
       (\<lambda>k. try_patterns repo (take 5 (drop k lns)) (lns ! k) file_line_patterns)
       [0..<length lns]"
proof (induction lns)
  case Nil
  show ?case by (simp add: List.map_filter_simps)
next
  case (Cons a lns)
  have u: "[0..<length (a # lns)] = 0 # map Suc [0..<length lns]"
    by (simp add: upt_conv_Cons map_Suc_upt del: upt_Suc)
  have m: "List.map_filter
       (\<lambda>k. try_patterns repo (take 5 (drop k (a # lns))) ((a # lns) ! k) file_line_patterns)
       (map Suc [0..<length lns]) =
     List.map_filter
       (\<lambda>k. try_patterns repo (take 5 (drop k lns)) (lns ! k) file_line_patterns)
       [0..<length lns]"
    by (simp add: map_filter_map_fun)
  show ?case
    unfolding u
    by (simp only: List.map_filter_simps m Cons.IH [symmetric] parse_lines.simps drop_0 nth_Cons_0
        split: option.split)
qed

lemma try_patterns_skip:
  assumes "\<forall>h0 f' n' hs. re_search False q row = Some (h0, f' # n' # hs) \<longrightarrow>
             contains (convert_path repo f') ''node_modules''"
  shows "try_patterns repo ctx row (q # ps) = try_patterns repo ctx row ps"
proof (cases "re_search False q row")
  case None
  then show ?thesis by simp
next
  case (Some r)
  obtain g0 groups where r: "r = (g0, groups)" by (cases r)
  show ?thesis
  proof (cases groups)
    case Nil
    with Some r show ?thesis by simp
  next
    case (Cons g1 rest)
    note c1 = this
    show ?thesis
    proof (cases rest)
      case Nil
      with Some r c1 show ?thesis by simp
    next
      case (Cons g2 gs)
      with assms Some r c1 have "contains (convert_path repo g1) ''node_modules''"
        by blast
      with Some r c1 Cons show ?thesis by (simp add: Let_def)
    qed
  qed
qed

lemma try_patterns_hit:
  assumes "re_search False p row = Some (g0, f # n # gs)"
    and "\<not> contains (convert_path repo f) ''node_modules''"
  shows "try_patterns repo ctx row (p # ps) =
     Some \<lparr>file = convert_path repo f, line = int_of_digits n,
           type = fst (identify_error row ctx), message = snd (identify_error row ctx)\<rparr>"
  using assms by (simp add: Let_def split: prod.splits)

lemma try_patterns_first:
  "try_patterns repo ctx row ps = Some e \<longleftrightarrow>
   (\<exists>ps1 p ps2 g0 f n gs.
      ps = ps1 @ p # ps2 \<and>
      (\<forall>q \<in> set ps1. \<forall>h0 f' n' hs. re_search False q row = Some (h0, f' # n' # hs) \<longrightarrow>
          contains (convert_path repo f') ''node_modules'') \<and>
      re_search False p row = Some (g0, f # n # gs) \<and>
      \<not> contains (convert_path repo f) ''node_modules'' \<and>
      e = \<lparr>file = convert_path repo f, line = int_of_digits n,
            type = fst (identify_error row ctx), message = snd (identify_error row ctx)\<rparr>)"
  (is "?L ps \<longleftrightarrow> ?R ps")
proof (induction ps)
  case Nil
  show ?case by simp
next
  case (Cons a ps)
  show ?case
  proof (cases "\<forall>h0 f' n' hs. re_search False a row = Some (h0, f' # n' # hs) \<longrightarrow>
             contains (convert_path repo f') ''node_modules''")
    case True
    then have s: "try_patterns repo ctx row (a # ps) = try_patterns repo ctx row ps"
      by (rule try_patterns_skip)
    show ?thesis
    proof
      assume "?L (a # ps)"
      with s Cons.IH obtain ps1 p ps2 g0 f n gs where
        h: "ps = ps1 @ p # ps2"
        "\<forall>q \<in> set ps1. \<forall>h0 f' n' hs. re_search False q row = Some (h0, f' # n' # hs) \<longrightarrow>
          contains (convert_path repo f') ''node_modules''"
        "re_search False p row = Some (g0, f # n # gs)"
        "\<not> contains (convert_path repo f) ''node_modules''"
        "e = \<lparr>file = convert_path repo f, line = int_of_digits n,
            type = fst (identify_error row ctx), message = snd (identify_error row ctx)\<rparr>"
        by auto
      from h(1) have "a # ps = (a # ps1) @ p # ps2" by simp
      moreover from h(2) True have "\<forall>q \<in> set (a # ps1). \<forall>h0 f' n' hs.
          re_search False q row = Some (h0, f' # n' # hs) \<longrightarrow>
          contains (convert_path repo f') ''node_modules''"
        by simp
      ultimately show "?R (a # ps)"
        using h(3-5) by blast
    next
      assume "?R (a # ps)"
      then obtain ps1 p ps2 g0 f n gs where
        h: "a # ps = ps1 @ p # ps2"
        "\<forall>q \<in> set ps1. \<forall>h0 f' n' hs. re_search False q row = Some (h0, f' # n' # hs) \<longrightarrow>
          contains (convert_path repo f') ''node_modules''"
        "re_search False p row = Some (g0, f # n # gs)"
        "\<not> contains (convert_path repo f) ''node_modules''"
        "e = \<lparr>file = convert_path repo f, line = int_of_digits n,
            type = fst (identify_error row ctx), message = snd (identify_error row ctx)\<rparr>"
        by blast
      have "ps1 \<noteq> []"
      proof
        assume "ps1 = []"
        with h(1) have "a = p" by simp
        with True h(3) h(4) show False by blast
      qed
      then obtain ps1' where p1: "ps1 = a # ps1'" and ps: "ps = ps1' @ p # ps2"
        using h(1) by (cases ps1) auto
      from h(2) p1 have "\<forall>q \<in> set ps1'. \<forall>h0 f' n' hs.
          re_search False q row = Some (h0, f' # n' # hs) \<longrightarrow>
          contains (convert_path repo f') ''node_modules''"
        by simp
      with ps h(3-5) have "?R ps" by blast
      with Cons.IH s show "?L (a # ps)" by simp
    qed
  next
    case False
    then obtain g0 f n gs where
      m: "re_search False a row = Some (g0, f # n # gs)"
      and c: "\<not> contains (convert_path repo f) ''node_modules''"
      by blast
    let ?e = "\<lparr>file = convert_path repo f, line = int_of_digits n,
            type = fst (identify_error row ctx), message = snd (identify_error row ctx)\<rparr>"
    have v: "try_patterns repo ctx row (a # ps) = Some ?e"
      using m c by (rule try_patterns_hit)
    show ?thesis
    proof
      assume "?L (a # ps)"
      with v have e: "e = ?e" by simp
      have "a # ps = [] @ a # ps" by simp
      moreover have "\<forall>q \<in> set []. \<forall>h0 f' n' hs.
          re_search False q row = Some (h0, f' # n' # hs) \<longrightarrow>
          contains (convert_path repo f') ''node_modules''"
        by simp
      ultimately show "?R (a # ps)"
        using m c e by blast
    next
      assume "?R (a # ps)"
      then obtain ps1 p ps2 g0' f' n' gs' where
        h: "a # ps = ps1 @ p # ps2"
        "\<forall>q \<in> set ps1. \<forall>h0 f' n' hs. re_search False q row = Some (h0, f' # n' # hs) \<longrightarrow>
          contains (convert_path repo f') ''node_modules''"
        "re_search False p row = Some (g0', f' # n' # gs')"
        "\<not> contains (convert_path repo f') ''node_modules''"
        "e = \<lparr>file = convert_path repo f', line = int_of_digits n',
            type = fst (identify_error row ctx), message = snd (identify_error row ctx)\<rparr>"
        by blast
      have "ps1 = []"
      proof (rule ccontr)
        assume "ps1 \<noteq> []"
        with h(1) have "a \<in> set ps1" by (cases ps1) auto
        with h(2) m c show False by blast
      qed
      with h(1) have "p = a" by simp
      with h(3) m have "f' = f" "n' = n" by simp_all
      with h(5) v show "?L (a # ps)" by simp
    qed
  qed
qed


lemma parse_errors_rows:
  "parse_errors test_output repo_path =
     List.map_filter (line_record repo_path (split_nl test_output))
       [0..<length (split_nl test_output)]"
  unfolding parse_errors_def line_record_def by (rule parse_lines_rows)

lemma two_rows_not_distinct:
  assumes ij: "i < j" "j < n"
    and a: "r i = Some a" and b: "r j = Some b" and k: "key a = key b"
  shows "\<not> distinct (map key (List.map_filter r [0..<n]))"
proof -
  have "[0..<n] = [0..<i] @ i # [Suc i..<j] @ j # [Suc j..<n]"
  proof -
    have "[0..<n] = [0..<i] @ [i..<n]"
      using ij upt_add_eq_append [of 0 i "n - i"] by simp
    also have "[i..<n] = i # [Suc i..<n]"
      using ij by (simp add: upt_conv_Cons)
    also have "[Suc i..<n] = [Suc i..<j] @ [j..<n]"
      using ij upt_add_eq_append [of "Suc i" j "n - j"] by simp
    also have "[j..<n] = j # [Suc j..<n]"
      using ij by (simp add: upt_conv_Cons)
    finally show ?thesis by simp
  qed
  then have "List.map_filter r [0..<n] =
      List.map_filter r [0..<i] @ a # List.map_filter r [Suc i..<j] @
      b # List.map_filter r [Suc j..<n]"
    using a b by (simp add: map_filter_app List.map_filter_simps)
  then show ?thesis
    using k by simp
qed

text \<open>
  Claim C6, as the code has it. The parser appends and never compares a new record with
  the ones it already holds. The result is the list of the records of the output lines, in
  the order of the lines. A line gives a record exactly when some locator pattern matches
  on it with a path outside \<open>node_modules\<close> while every pattern before it does not;
  that pattern gives the file and the line of the record, and the line with the up to
  four lines after it gives the kind and the message. So two lines that give the same
  file, line and kind give two records that share them.
\<close>

theorem every_matching_line_gives_its_own_record:
  "parse_errors test_output repo_path =
     List.map_filter (line_record repo_path (split_nl test_output))
       [0..<length (split_nl test_output)] \<and>
   (line_record repo_path lines i = Some e \<longleftrightarrow>
     (\<exists>ps1 p ps2 g0 f n gs.
        file_line_patterns = ps1 @ p # ps2 \<and>
        (\<forall>q \<in> set ps1. \<forall>h0 f' n' hs.
            re_search False q (lines ! i) = Some (h0, f' # n' # hs) \<longrightarrow>
            contains (convert_path repo_path f') ''node_modules'') \<and>
        re_search False p (lines ! i) = Some (g0, f # n # gs) \<and>
        \<not> contains (convert_path repo_path f) ''node_modules'' \<and>
        e = \<lparr>file = convert_path repo_path f, line = int_of_digits n,
              type = fst (identify_error (lines ! i) (take 5 (drop i lines))),
              message = snd (identify_error (lines ! i) (take 5 (drop i lines)))\<rparr>)) \<and>
   (j < k \<and> k < length (split_nl test_output) \<and>
    line_record repo_path (split_nl test_output) j = Some a \<and>
    line_record repo_path (split_nl test_output) k = Some b \<and>
    file a = file b \<and> line a = line b \<and> type a = type b \<longrightarrow>
      \<not> distinct (map (\<lambda>e. (file e, line e, type e)) (parse_errors test_output repo_path)))"
proof (intro conjI impI)
  show "parse_errors test_output repo_path =
     List.map_filter (line_record repo_path (split_nl test_output))
       [0..<length (split_nl test_output)]"
    by (rule parse_errors_rows)
next
  show "line_record repo_path lines i = Some e \<longleftrightarrow>
     (\<exists>ps1 p ps2 g0 f n gs.
        file_line_patterns = ps1 @ p # ps2 \<and>
        (\<forall>q \<in> set ps1. \<forall>h0 f' n' hs.
            re_search False q (lines ! i) = Some (h0, f' # n' # hs) \<longrightarrow>
            contains (convert_path repo_path f') ''node_modules'') \<and>
        re_search False p (lines ! i) = Some (g0, f # n # gs) \<and>
        \<not> contains (convert_path repo_path f) ''node_modules'' \<and>
        e = \<lparr>file = convert_path repo_path f, line = int_of_digits n,
              type = fst (identify_error (lines ! i) (take 5 (drop i lines))),
              message = snd (identify_error (lines ! i) (take 5 (drop i lines)))\<rparr>)"
    unfolding line_record_def by (rule try_patterns_first)
next
  assume h: "j < k \<and> k < length (split_nl test_output) \<and>
    line_record repo_path (split_nl test_output) j = Some a \<and>
    line_record repo_path (split_nl test_output) k = Some b \<and>
    file a = file b \<and> line a = line b \<and> type a = type b"
  then have "(file a, line a, type a) = (file b, line b, type b)" by simp
  with h have "\<not> distinct (map (\<lambda>e. (file e, line e, type e))
      (List.map_filter (line_record repo_path (split_nl test_output))
        [0..<length (split_nl test_output)]))"
    by (intro two_rows_not_distinct [of j k _ _ a b]) simp_all
  then show "\<not> distinct (map (\<lambda>e. (file e, line e, type e))
      (parse_errors test_output repo_path))"
    unfolding parse_errors_rows .
qed

theorem every_matching_line_gives_its_own_record_witness:
  "line_record None
     (split_nl (''at f (node_modules/x.js:1:2) SyntaxError in a.js:3'' @ [NL] @
                ''SyntaxError in a.js:3'')) 0 =
     Some \<lparr>file = ''a.js'', line = 3, type = SYNTAX, message = ''SyntaxError''\<rparr> \<and>
   line_record None
     (split_nl (''at f (node_modules/x.js:1:2) SyntaxError in a.js:3'' @ [NL] @
                ''SyntaxError in a.js:3'')) 1 =
     Some \<lparr>file = ''a.js'', line = 3, type = SYNTAX, message = ''SyntaxError''\<rparr> \<and>
   parse_errors (''at f (node_modules/x.js:1:2) SyntaxError in a.js:3'' @ [NL] @
                 ''SyntaxError in a.js:3'') None =
     [\<lparr>file = ''a.js'', line = 3, type = SYNTAX, message = ''SyntaxError''\<rparr>,
      \<lparr>file = ''a.js'', line = 3, type = SYNTAX, message = ''SyntaxError''\<rparr>] \<and>
   \<not> distinct (map (\<lambda>e. (file e, line e, type e))
     (parse_errors (''at f (node_modules/x.js:1:2) SyntaxError in a.js:3'' @ [NL] @
                    ''SyntaxError in a.js:3'') None))"
proof -
  let ?out = "''at f (node_modules/x.js:1:2) SyntaxError in a.js:3'' @ [NL] @
              ''SyntaxError in a.js:3''"
  let ?row = "''at f (node_modules/x.js:1:2) SyntaxError in a.js:3''"
  let ?e = "\<lparr>file = ''a.js'', line = 3, type = SYNTAX, message = ''SyntaxError''\<rparr>"
  have rows: "split_nl ?out = [?row, ''SyntaxError in a.js:3'']"
    by (simp add: char_eval)
  have row0: "split_nl ?out ! 0 = ?row"
    unfolding rows by simp
  have n: "length (split_nl ?out) = 2"
    unfolding rows by simp
  note t = every_matching_line_gives_its_own_record
    [of ?out None "split_nl ?out" 0 ?e 0 1 ?e ?e]
  have stack: "re_search False stack_trace_pattern ?row =
      Some (''at f (node_modules/x.js:1:2)'', [''node_modules/x.js'', ''1'', ''2''])"
    by (simp add: char_eval regex_eval parser_eval)
  have eslint: "re_search False eslint_pattern ?row = None"
    by (simp add: char_eval regex_eval parser_eval)
  have generic: "re_search False generic_pattern ?row =
      Some (''Error in a.js:3'', [''a.js'', ''3''])"
    by (simp add: char_eval regex_eval parser_eval)
  have kind: "identify_error ?row (take 5 (drop 0 (split_nl ?out))) = (SYNTAX, ''SyntaxError'')"
    unfolding rows by (simp add: char_eval regex_eval parser_eval)
  have skipped: "\<forall>q \<in> set [stack_trace_pattern, eslint_pattern]. \<forall>h0 f' n' hs.
      re_search False q (split_nl ?out ! 0) = Some (h0, f' # n' # hs) \<longrightarrow>
      contains (convert_path None f') ''node_modules''"
    unfolding row0 by (simp add: stack eslint convert_path_def)
  have found: "\<exists>ps1 p ps2 g0 f n gs.
      file_line_patterns = ps1 @ p # ps2 \<and>
      (\<forall>q \<in> set ps1. \<forall>h0 f' n' hs.
          re_search False q (split_nl ?out ! 0) = Some (h0, f' # n' # hs) \<longrightarrow>
          contains (convert_path None f') ''node_modules'') \<and>
      re_search False p (split_nl ?out ! 0) = Some (g0, f # n # gs) \<and>
      \<not> contains (convert_path None f) ''node_modules'' \<and>
      ?e = \<lparr>file = convert_path None f, line = int_of_digits n,
            type = fst (identify_error (split_nl ?out ! 0) (take 5 (drop 0 (split_nl ?out)))),
            message = snd (identify_error (split_nl ?out ! 0) (take 5 (drop 0 (split_nl ?out))))\<rparr>"
  proof (intro exI conjI)
    show "file_line_patterns = [stack_trace_pattern, eslint_pattern] @ generic_pattern # []"
      by (simp add: file_line_patterns_def)
    show "\<forall>q \<in> set [stack_trace_pattern, eslint_pattern]. \<forall>h0 f' n' hs.
      re_search False q (split_nl ?out ! 0) = Some (h0, f' # n' # hs) \<longrightarrow>
      contains (convert_path None f') ''node_modules''"
      by (rule skipped)
    show "re_search False generic_pattern (split_nl ?out ! 0) =
        Some (''Error in a.js:3'', ''a.js'' # ''3'' # [])"
      unfolding row0 by (rule generic)
    show "\<not> contains (convert_path None ''a.js'') ''node_modules''"
      by (simp add: convert_path_def)
    show "?e = \<lparr>file = convert_path None ''a.js'', line = int_of_digits ''3'',
            type = fst (identify_error (split_nl ?out ! 0) (take 5 (drop 0 (split_nl ?out)))),
            message = snd (identify_error (split_nl ?out ! 0) (take 5 (drop 0 (split_nl ?out))))\<rparr>"
      unfolding row0 kind by (simp add: convert_path_def char_eval)
  qed
  from t have "line_record None (split_nl ?out) 0 = Some ?e \<longleftrightarrow>
     (\<exists>ps1 p ps2 g0 f n gs.
      file_line_patterns = ps1 @ p # ps2 \<and>
      (\<forall>q \<in> set ps1. \<forall>h0 f' n' hs.
          re_search False q (split_nl ?out ! 0) = Some (h0, f' # n' # hs) \<longrightarrow>
          contains (convert_path None f') ''node_modules'') \<and>
      re_search False p (split_nl ?out ! 0) = Some (g0, f # n # gs) \<and>
      \<not> contains (convert_path None f) ''node_modules'' \<and>
      ?e = \<lparr>file = convert_path None f, line = int_of_digits n,
            type = fst (identify_error (split_nl ?out ! 0) (take 5 (drop 0 (split_nl ?out)))),
            message = snd (identify_error (split_nl ?out ! 0) (take 5 (drop 0 (split_nl ?out))))\<rparr>)"
    by (rule conjunct2 [THEN conjunct1])
  with found have r0: "line_record None (split_nl ?out) 0 = Some ?e"
    by (rule iffD2 [rotated])
  have r1: "line_record None (split_nl ?out) 1 = Some ?e"
    unfolding rows by (simp add: line_record_def char_eval regex_eval parser_eval)
  from t have "parse_errors ?out None =
      List.map_filter (line_record None (split_nl ?out)) [0..<length (split_nl ?out)]"
    by (rule conjunct1)
  also have "[0..<length (split_nl ?out)] = [0, 1]"
    unfolding n by (simp add: upt_conv_Cons)
  finally have all: "parse_errors ?out None = [?e, ?e]"
    using r0 r1 by (simp add: List.map_filter_simps)
  from t have "(0::nat) < 1 \<and> 1 < length (split_nl ?out) \<and>
      line_record None (split_nl ?out) 0 = Some ?e \<and>
      line_record None (split_nl ?out) 1 = Some ?e \<and>
      file ?e = file ?e \<and> line ?e = line ?e \<and> type ?e = type ?e \<longrightarrow>
      \<not> distinct (map (\<lambda>e. (file e, line e, type e)) (parse_errors ?out None))"
    by (rule conjunct2 [THEN conjunct2])
  with r0 r1 n have dup: "\<not> distinct (map (\<lambda>e. (file e, line e, type e))
      (parse_errors ?out None))"
    by simp
  from r0 r1 all dup show ?thesis
    by (intro conjI)
qed

text \<open>
  Claim C6, as stated, fails: a test output that reports the same location on two lines
  gives two records with the same file, line and kind.
\<close>

theorem duplicate_records_counterexample:
  "parse_errors (''SyntaxError in a.js:2'' @ [NL] @ ''SyntaxError in a.js:2'') None =
     [\<lparr>file = ''a.js'', line = 2, type = SYNTAX, message = ''SyntaxError''\<rparr>,
      \<lparr>file = ''a.js'', line = 2, type = SYNTAX, message = ''SyntaxError''\<rparr>] \<and>
   \<not> distinct (map (\<lambda>e. (file e, line e, type e))
     (parse_errors (''SyntaxError in a.js:2'' @ [NL] @ ''SyntaxError in a.js:2'') None))"
  by (simp add: char_eval regex_eval parser_eval)

text \<open>
  Claim C7. When a repository path is given, every record of the parse result comes from
  a locator of some output line, and when that locator's path is \<open>/workspace\<close> followed
  by \<open>rel\<close>, the stored path is the repository path, one separator and \<open>rel\<close> without
  its leading separators: the same file below the host copy. A path that does not start
  with \<open>/workspace\<close> is stored as it is.
\<close>

theorem workspace_paths_become_host_paths:
  assumes "rp \<noteq> []" and "e \<in> set (parse_errors test_output (Some rp))"
  shows "\<exists>row \<in> set (split_nl test_output). \<exists>p \<in> set file_line_patterns. \<exists>g0 f n gs.
           re_search False p row = Some (g0, f # n # gs) \<and>
           line e = int_of_digits n \<and>
           (\<forall>rel. f = ''/workspace'' @ rel \<longrightarrow>
              file e = (if last rp = CHR ''/'' then rp else rp @ ''/'') @ lstrip_slash rel) \<and>
           (\<not> startswith f ''/workspace'' \<longrightarrow> file e = f)"
proof -
  from assms(2) obtain row ctx where row: "row \<in> set (split_nl test_output)"
    and t: "try_patterns (Some rp) ctx row file_line_patterns = Some e"
    unfolding parse_errors_def using parse_lines_mem by blast
  from try_patterns_Some [OF t] obtain p g0 f n gs where
    p: "p \<in> set file_line_patterns" and
    m: "re_search False p row = Some (g0, f # n # gs)" and
    f: "file e = convert_path (Some rp) f" and
    n: "line e = int_of_digits n"
    by blast
  have "\<forall>rel. f = ''/workspace'' @ rel \<longrightarrow>
          file e = (if last rp = CHR ''/'' then rp else rp @ ''/'') @ lstrip_slash rel"
    using f convert_path_rooted [OF assms(1)] by simp
  moreover have "\<not> startswith f ''/workspace'' \<longrightarrow> file e = f"
    using f convert_path_other by simp
  ultimately show ?thesis
    using row p m n by blast
qed

theorem workspace_paths_become_host_paths_witness:
  "''/r'' \<noteq> [] \<and>
   \<lparr>file = ''/r/a.js'', line = 1, type = SYNTAX, message = ''SyntaxError''\<rparr>
     \<in> set (parse_errors ''SyntaxError at f (/workspace/a.js:1:2)'' (Some ''/r'')) \<and>
   (\<exists>row \<in> set (split_nl ''SyntaxError at f (/workspace/a.js:1:2)'').
    \<exists>p \<in> set file_line_patterns. \<exists>g0 f n gs.
      re_search False p row = Some (g0, f # n # gs) \<and>
      line \<lparr>file = ''/r/a.js'', line = 1, type = SYNTAX, message = ''SyntaxError''\<rparr>
        = int_of_digits n \<and>
      (\<forall>rel. f = ''/workspace'' @ rel \<longrightarrow>
         file \<lparr>file = ''/r/a.js'', line = 1, type = SYNTAX, message = ''SyntaxError''\<rparr>
           = (if last ''/r'' = CHR ''/'' then ''/r'' else ''/r'' @ ''/'') @ lstrip_slash rel) \<and>
      (\<not> startswith f ''/workspace'' \<longrightarrow>
         file \<lparr>file = ''/r/a.js'', line = 1, type = SYNTAX, message = ''SyntaxError''\<rparr> = f))"
proof -
  have nz: "''/r'' \<noteq> []"
    by simp
  have m: "\<lparr>file = ''/r/a.js'', line = 1, type = SYNTAX, message = ''SyntaxError''\<rparr>
             \<in> set (parse_errors ''SyntaxError at f (/workspace/a.js:1:2)'' (Some ''/r''))"
    by (simp add: char_eval regex_eval parser_eval)
  note t = workspace_paths_become_host_paths [OF nz m]
  show ?thesis
    using nz m t by blast
qed

text \<open>
  Claim C8. No record of a parse result has a path that contains \<open>node_modules\<close>: a
  locator inside it is passed over before a record is made, so it is not counted.
\<close>

theorem no_record_inside_node_modules:
  "\<forall>e \<in> set (parse_errors test_output repo_path). \<not> contains (file e) ''node_modules''"
proof
  fix e assume "e \<in> set (parse_errors test_output repo_path)"
  then obtain row ctx where
    "try_patterns repo_path ctx row file_line_patterns = Some e"
    unfolding parse_errors_def using parse_lines_mem by blast
  then show "\<not> contains (file e) ''node_modules''"
    using try_patterns_Some by blast
qed

theorem no_record_inside_node_modules_witness:
  "parse_errors (''Error in node_modules/x.js:1'' @ [NL] @ ''SyntaxError in a.js:2'') None =
     [\<lparr>file = ''a.js'', line = 2, type = SYNTAX, message = ''SyntaxError''\<rparr>] \<and>
   \<not> contains (file \<lparr>file = ''a.js'', line = 2, type = SYNTAX, message = ''SyntaxError''\<rparr>)
     ''node_modules''"
proof -
  have ev: "parse_errors (''Error in node_modules/x.js:1'' @ [NL] @ ''SyntaxError in a.js:2'') None =
      [\<lparr>file = ''a.js'', line = 2, type = SYNTAX, message = ''SyntaxError''\<rparr>]"
    by (simp add: char_eval regex_eval parser_eval)
  note t = no_record_inside_node_modules
    [of "''Error in node_modules/x.js:1'' @ [NL] @ ''SyntaxError in a.js:2''" None]
  have "\<not> contains (file \<lparr>file = ''a.js'', line = 2, type = SYNTAX, message = ''SyntaxError''\<rparr>)
     ''node_modules''"
    using t unfolding ev by simp
  then show ?thesis
    using ev by blast
qed

section \<open>Properties of the fixer\<close>

lemmas fixer_eval = fix_error_def fix_syntax_def fix_type_error_def fix_import_def
  with_lines_def readlines_def writelines_def py_index_def py_insert_def
  syntax_edit_def type_error_edit_def import_edit_def indent_of_def lstrip_def rstrip_def
  endswith_def lower_def CR_def not_defined_pattern_def one_file_def file_text_def
  syntax_rule_matches_def

text \<open>
  A fix that reports success has read and written the file of the record: when the file is
  missing, unreadable or read-only, or the reported line is not a line of the file, the
  fixer reports failure and leaves the file system as it was.
\<close>

lemma fix_error_True_io:
  "fix_error fs e = (True, fs') \<Longrightarrow>
   \<exists>f lines. fs (file e) = Some f \<and> readable f \<and> writable f \<and>
     readlines fs (file e) = Some lines \<and> py_index lines (line e - 1) \<noteq> None"
  by (auto simp: fix_error_def fix_syntax_def fix_type_error_def fix_import_def
      with_lines_def readlines_def writelines_def Let_def
      split: if_splits option.splits)

lemma fix_error_io_failure:
  "fs (file e) = None \<or> \<not> readable (the (fs (file e))) \<or> \<not> writable (the (fs (file e))) \<Longrightarrow>
   fix_error fs e = (False, fs)"
  by (auto simp: fix_error_def fix_syntax_def fix_type_error_def fix_import_def
      with_lines_def readlines_def writelines_def Let_def
      split: if_splits option.splits)

lemma fix_error_other_kinds:
  "type e \<notin> {SYNTAX, TYPE_ERROR, IMPORT} \<Longrightarrow> fix_error fs e = (False, fs)"
  by (simp add: fix_error_def)

text \<open>
  The rules that test the reported line before they edit it do nothing on their own
  result: the semicolon rule, because the fixed line ends with a semicolon, and the
  optional chaining rule, because the fixed line contains \<open>?.\<close>.
\<close>

lemma contains_replace_first_dot:
  "contains row ''.'' \<Longrightarrow> contains (replace_first ''.'' ''?.'' row) ''?.''"
  by (induction row) auto

lemma optional_chaining_edit_idempotent:
  assumes "contains (lower msg) ''cannot read property''" and "k < length lines"
  shows "type_error_edit msg i k (type_error_edit msg i k (lines ! k) lines ! k)
           (type_error_edit msg i k (lines ! k) lines)
         = type_error_edit msg i k (lines ! k) lines"
  using assms by (auto simp: type_error_edit_def contains_replace_first_dot)

lemma rstrip_semicolon: "rstrip (s @ '';'' @ [NL]) = s @ '';''"
  by (simp add: rstrip_def py_space_def NL_def)

lemma endswith_semicolon: "endswith (s @ '';'') '';''"
  by (simp add: endswith_def)

lemma semicolon_edit_idempotent:
  assumes "contains (lower msg) ''missing ;''" and "k < length lines"
  shows "syntax_edit msg i k (syntax_edit msg i k (lines ! k) lines ! k)
           (syntax_edit msg i k (lines ! k) lines)
         = syntax_edit msg i k (lines ! k) lines"
  using assms
  by (auto simp: syntax_edit_def rstrip_semicolon endswith_semicolon simp del: append.simps)

text \<open>
  The rule for imports tests the line, but its test still holds on the commented line,
  so a second run adds a second comment mark.
\<close>

lemma import_commented_twice:
  "fix_error (one_file ''a.js'' (''import x'' @ [NL]))
     \<lparr>file = ''a.js'', line = 1, type = IMPORT, message = ''Cannot find module''\<rparr> =
     (True, one_file ''a.js'' (''// import x'' @ [NL])) \<and>
   fix_error (one_file ''a.js'' (''// import x'' @ [NL]))
     \<lparr>file = ''a.js'', line = 1, type = IMPORT, message = ''Cannot find module''\<rparr> =
     (True, one_file ''a.js'' (''// // import x'' @ [NL]))"
  by (simp add: char_eval regex_eval fixer_eval)

text \<open>
  Claim C3 at the closing brace. The parser reports \<open>missing }\<close> at line 1 of \<open>a.js\<close>.
  The first fix inserts the brace after the line; the same fix for the same record, run on
  the file it has just produced, inserts a second brace: it is neither a no-op nor a
  non-match.
\<close>

theorem closing_brace_inserted_twice:
  "parse_errors ''Error in a.js:1: missing }'' None =
     [\<lparr>file = ''a.js'', line = 1, type = SYNTAX, message = ''missing }''\<rparr>] \<and>
   fix_error (one_file ''a.js'' (''function f() {'' @ [NL]))
     \<lparr>file = ''a.js'', line = 1, type = SYNTAX, message = ''missing }''\<rparr> =
     (True, one_file ''a.js'' (''function f() {'' @ [NL] @ ''}'' @ [NL])) \<and>
   fix_error (one_file ''a.js'' (''function f() {'' @ [NL] @ ''}'' @ [NL]))
     \<lparr>file = ''a.js'', line = 1, type = SYNTAX, message = ''missing }''\<rparr> =
     (True, one_file ''a.js'' (''function f() {'' @ [NL] @ ''}'' @ [NL] @ ''}'' @ [NL])) \<and>
   file_text (one_file ''a.js'' (''function f() {'' @ [NL] @ ''}'' @ [NL] @ ''}'' @ [NL])) ''a.js''
     \<noteq> file_text (one_file ''a.js'' (''function f() {'' @ [NL] @ ''}'' @ [NL])) ''a.js''"
proof -
  have p: "parse_errors ''Error in a.js:1: missing }'' None =
      [\<lparr>file = ''a.js'', line = 1, type = SYNTAX, message = ''missing }''\<rparr>]"
    by (simp add: char_eval regex_eval parser_eval)
  have f1: "fix_error (one_file ''a.js'' (''function f() {'' @ [NL]))
      \<lparr>file = ''a.js'', line = 1, type = SYNTAX, message = ''missing }''\<rparr> =
      (True, one_file ''a.js'' (''function f() {'' @ [NL] @ ''}'' @ [NL]))"
    by (simp add: char_eval regex_eval fixer_eval)
  have f2: "fix_error (one_file ''a.js'' (''function f() {'' @ [NL] @ ''}'' @ [NL]))
      \<lparr>file = ''a.js'', line = 1, type = SYNTAX, message = ''missing }''\<rparr> =
      (True, one_file ''a.js'' (''function f() {'' @ [NL] @ ''}'' @ [NL] @ ''}'' @ [NL]))"
    by (simp add: char_eval regex_eval fixer_eval)
  have d: "file_text (one_file ''a.js'' (''function f() {'' @ [NL] @ ''}'' @ [NL] @ ''}'' @ [NL])) ''a.js''
      \<noteq> file_text (one_file ''a.js'' (''function f() {'' @ [NL] @ ''}'' @ [NL])) ''a.js''"
    by (simp add: one_file_def file_text_def)
  from p f1 f2 d show ?thesis
    by blast
qed

text \<open>
  Claim C4 where no rule matches. The parser reports a \<open>SyntaxError\<close> at line 1 of
  \<open>a.js\<close>; the message names neither a missing semicolon nor a missing brace and the
  line holds no \<open>const\<close>, so no rule of \<open>_fix_syntax\<close> applies. The fixer writes the
  file back unchanged and reports success.
\<close>

theorem success_reported_without_a_matching_rule:
  "parse_errors ''SyntaxError in a.js:1'' None =
     [\<lparr>file = ''a.js'', line = 1, type = SYNTAX, message = ''SyntaxError''\<rparr>] \<and>
   \<not> syntax_rule_matches ''SyntaxError'' (''let x = 1'' @ [NL]) \<and>
   fix_error (one_file ''a.js'' (''let x = 1'' @ [NL]))
     \<lparr>file = ''a.js'', line = 1, type = SYNTAX, message = ''SyntaxError''\<rparr> =
     (True, one_file ''a.js'' (''let x = 1'' @ [NL]))"
proof -
  have p: "parse_errors ''SyntaxError in a.js:1'' None =
      [\<lparr>file = ''a.js'', line = 1, type = SYNTAX, message = ''SyntaxError''\<rparr>]"
    by (simp add: char_eval regex_eval parser_eval)
  have n: "\<not> syntax_rule_matches ''SyntaxError'' (''let x = 1'' @ [NL])"
    by (simp add: char_eval fixer_eval)
  have f: "fix_error (one_file ''a.js'' (''let x = 1'' @ [NL]))
      \<lparr>file = ''a.js'', line = 1, type = SYNTAX, message = ''SyntaxError''\<rparr> =
      (True, one_file ''a.js'' (''let x = 1'' @ [NL]))"
    by (simp add: char_eval regex_eval fixer_eval)
  from p n f show ?thesis
    by blast
qed

section \<open>Properties of the remediation loop\<close>

lemma loop_iterations:
  "remediation_loop test fix budget st = Inr st' \<Longrightarrow>
   iteration_count st' \<le> iteration_count st + budget"
proof (induction budget arbitrary: st)
  case 0
  then show ?case by auto
next
  case (Suc budget)
  show ?case
  proof (cases "test (working_copy st)")
    case (Inl err)
    with Suc.prems show ?thesis by simp
  next
    case (Inr errors)
    show ?thesis
    proof (cases "errors = []")
      case True
      with Suc.prems Inr show ?thesis by (auto simp: Let_def)
    next
      case False
      obtain rs w' where fa: "fix_all fix (working_copy st) errors = (rs, w')"
        by (cases "fix_all fix (working_copy st) errors")
      show ?thesis
      proof (cases "count_fixed rs = 0")
        case True
        with Suc.prems Inr False fa show ?thesis by (auto simp: Let_def)
      next
        case nz: False
        let ?st2 = "st\<lparr>iteration_count := iteration_count st + 1, last_parse := Some errors,
                       working_copy := w', fix_count := fix_count st + count_fixed rs,
                       fix_records := fix_records st @ rs\<rparr>"
        from Suc.prems Inr False fa nz
        have "remediation_loop test fix budget ?st2 = Inr st'"
          by (simp add: Let_def)
        from Suc.IH [OF this] show ?thesis by simp
      qed
    qed
  qed
qed

lemma loop_status:
  "remediation_loop test fix budget st = Inr st' \<Longrightarrow>
   0 < budget \<or> (\<exists>errors. last_parse st = Some errors \<and> errors \<noteq> []) \<Longrightarrow>
   \<exists>errors. last_parse st' = Some errors \<and>
     loop_status st' = derive_status (length errors) (fix_count st')"
proof (induction budget arbitrary: st)
  case 0
  from 0(2) obtain errors where e: "last_parse st = Some errors" "errors \<noteq> []"
    by auto
  from 0(1) have st': "st' = st\<lparr>loop_status := remaining_status (fix_count st)\<rparr>"
    by simp
  have "loop_status st' = derive_status (length errors) (fix_count st')"
    using e by (simp add: st' derive_status_def remaining_status_def)
  moreover have "last_parse st' = Some errors"
    using e by (simp add: st')
  ultimately show ?case by blast
next
  case (Suc budget)
  show ?case
  proof (cases "test (working_copy st)")
    case (Inl err)
    with Suc.prems(1) show ?thesis by simp
  next
    case (Inr errors)
    show ?thesis
    proof (cases "errors = []")
      case True
      with Suc.prems(1) Inr
      have st': "st' = st\<lparr>iteration_count := iteration_count st + 1, last_parse := Some [],
                          loop_status := PASSED\<rparr>"
        by (simp add: Let_def)
      show ?thesis
        by (simp add: st' derive_status_def)
    next
      case False
      obtain rs w' where fa: "fix_all fix (working_copy st) errors = (rs, w')"
        by (cases "fix_all fix (working_copy st) errors")
      let ?st2 = "st\<lparr>iteration_count := iteration_count st + 1, last_parse := Some errors,
                     working_copy := w', fix_count := fix_count st + count_fixed rs,
                     fix_records := fix_records st @ rs\<rparr>"
      show ?thesis
      proof (cases "count_fixed rs = 0")
        case True
        with Suc.prems(1) Inr False fa
        have st': "st' = ?st2\<lparr>loop_status := remaining_status (fix_count ?st2)\<rparr>"
          by (simp add: Let_def)
        show ?thesis
          using False by (simp add: st' derive_status_def remaining_status_def)
      next
        case nz: False
        from Suc.prems(1) Inr False fa nz
        have l: "remediation_loop test fix budget ?st2 = Inr st'"
          by (simp add: Let_def)
        have "0 < budget \<or> (\<exists>es. last_parse ?st2 = Some es \<and> es \<noteq> [])"
          using False by simp
        from Suc.IH [OF l this] show ?thesis .
      qed
    qed
  qed
qed

lemma demo_run:
  "runRemediation demo_test demo_fix 2 5 =
     Inr \<lparr>total_failures = 1, total_fixes = 1, iterations = 2, status = PARTIAL,
          fixes = [\<lparr>fixed_error = demo_error, fix_status = Fixed\<rparr>,
                   \<lparr>fixed_error = demo_error, fix_status = Unfixed\<rparr>,
                   \<lparr>fixed_error = demo_error, fix_status = Unfixed\<rparr>]\<rparr>"
  by (simp add: runRemediation_def initial_state_def demo_test_def demo_fix_def
      eval_nat_numeral Let_def count_fixed_def result_of_def remaining_status_def)

text \<open>
  Claim C1. A run with a positive budget that ends without an infrastructure error
  reports the status that \<open>derive_status\<close> gives for the number of errors of its final
  parse and the number of fixes of all its iterations: \<open>PASSED\<close> for zero errors,
  \<open>FAILED\<close> for zero fixes with errors left, \<open>PARTIAL\<close> otherwise.
\<close>

theorem status_is_derived_from_final_counts:
  "0 < maxRetries \<Longrightarrow> runRemediation test fix w maxRetries = Inr r \<Longrightarrow>
   status r = derive_status (total_failures r) (total_fixes r)"
proof -
  assume pos: "0 < maxRetries" and run: "runRemediation test fix w maxRetries = Inr r"
  from run obtain st' where
    l: "remediation_loop test fix maxRetries (initial_state w) = Inr st'" and
    r: "r = result_of st'"
    by (auto simp: runRemediation_def split: sum.splits)
  from loop_status [OF l] pos obtain errors where
    "last_parse st' = Some errors"
    "loop_status st' = derive_status (length errors) (fix_count st')"
    by (auto simp: initial_state_def)
  with r show ?thesis
    by (simp add: result_of_def)
qed

theorem status_is_derived_from_final_counts_witness:
  "(0::nat) < 5 \<and>
   runRemediation demo_test demo_fix 2 5 =
     Inr \<lparr>total_failures = 1, total_fixes = 1, iterations = 2, status = PARTIAL,
          fixes = [\<lparr>fixed_error = demo_error, fix_status = Fixed\<rparr>,
                   \<lparr>fixed_error = demo_error, fix_status = Unfixed\<rparr>,
                   \<lparr>fixed_error = demo_error, fix_status = Unfixed\<rparr>]\<rparr> \<and>
   PARTIAL = derive_status 1 1"
proof -
  have pos: "(0::nat) < 5"
    by simp
  note t = status_is_derived_from_final_counts [OF pos demo_run]
  from t have "PARTIAL = derive_status 1 1"
    by simp
  with pos demo_run show ?thesis
    by blast
qed

text \<open>
  Claim C2. The iteration count of the result of a run that ends without an
  infrastructure error is at most the budget \<open>maxRetries\<close>; every iteration is one
  cycle of testing, parsing, fixing and committing.
\<close>

theorem iterations_within_budget:
  "runRemediation test fix w maxRetries = Inr r \<Longrightarrow> iterations r \<le> maxRetries"
proof -
  assume run: "runRemediation test fix w maxRetries = Inr r"
  from run obtain st' where
    l: "remediation_loop test fix maxRetries (initial_state w) = Inr st'" and
    r: "r = result_of st'"
    by (auto simp: runRemediation_def split: sum.splits)
  from loop_iterations [OF l] r show ?thesis
    by (simp add: result_of_def initial_state_def)
qed

theorem iterations_within_budget_witness:
  "runRemediation demo_test demo_fix 2 5 =
     Inr \<lparr>total_failures = 1, total_fixes = 1, iterations = 2, status = PARTIAL,
          fixes = [\<lparr>fixed_error = demo_error, fix_status = Fixed\<rparr>,
                   \<lparr>fixed_error = demo_error, fix_status = Unfixed\<rparr>,
                   \<lparr>fixed_error = demo_error, fix_status = Unfixed\<rparr>]\<rparr> \<and>
   (2::nat) \<le> 5"
proof -
  note t = iterations_within_budget [OF demo_run]
  from t have "(2::nat) \<le> 5"
    by simp
  with demo_run show ?thesis
    by blast
qed

section \<open>Properties of the branch name\<close>

text \<open>
  Upper case keeps white space as it is and leaves no lower-case letter; collapsing copies
  a word and turns a run of white space into one underscore.
\<close>

lemma upper_c_cases: "c \<notin> set lowers \<Longrightarrow> upper_c c = c"
proof -
  assume "c \<notin> set lowers"
  then have "map_of (zip lowers uppers) c = None"
    by (simp add: map_of_eq_None_iff lowers_def uppers_def)
  then show ?thesis by (simp add: upper_c_def)
qed

lemma upper_c_letter: "c \<in> set lowers \<Longrightarrow> upper_c c \<in> set uppers"
  by (auto simp: lowers_def uppers_def upper_c_def)

lemma letters_disjoint: "c \<in> set uppers \<Longrightarrow> c \<notin> set lowers"
  by (auto simp: lowers_def uppers_def)

lemma upper_c_not_lower: "\<not> is_lower_c (upper_c c)"
proof (cases "c \<in> set lowers")
  case True
  then show ?thesis
    using letters_disjoint [OF upper_c_letter] by (simp add: is_lower_c_def)
next
  case False
  then show ?thesis by (simp add: upper_c_cases is_lower_c_def)
qed

lemma white_space_upper_c: "white_space (upper_c c) = white_space c"
proof (cases "c \<in> set lowers")
  case True
  then show ?thesis
    by (auto simp: lowers_def uppers_def upper_c_def white_space_def)
next
  case False
  then show ?thesis by (simp add: upper_c_cases)
qed

lemma collapse_space_chars:
  "c \<in> set (collapse_space in_run s) \<Longrightarrow> c = CHR ''_'' \<or> (c \<in> set s \<and> \<not> white_space c)"
  by (induction s arbitrary: in_run) (auto split: if_splits)

lemma normalise_chars:
  assumes "c \<in> set (normalise s)"
  shows "\<not> white_space c \<and> \<not> is_lower_c c"
proof -
  from assms have "c = CHR ''_'' \<or> (c \<in> set (upper s) \<and> \<not> white_space c)"
    unfolding normalise_def by (rule collapse_space_chars)
  then show ?thesis
  proof
    assume "c = CHR ''_''"
    then show ?thesis by (simp add: white_space_def is_lower_c_def lowers_def)
  next
    assume "c \<in> set (upper s) \<and> \<not> white_space c"
    then show ?thesis by (auto simp: upper_def upper_c_not_lower)
  qed
qed

lemma collapse_space_word:
  "\<forall>c \<in> set w. \<not> white_space c \<Longrightarrow>
   collapse_space in_run (w @ s) = (if w = [] then collapse_space in_run s else w @ collapse_space False s)"
  by (induction w arbitrary: in_run) auto

lemma collapse_space_run:
  "\<forall>c \<in> set r. white_space c \<Longrightarrow> collapse_space True (r @ s) = collapse_space True s"
  by (induction r) auto

lemma collapse_space_start:
  "s = [] \<or> \<not> white_space (hd s) \<Longrightarrow> collapse_space True s = collapse_space False s"
  by (cases s) auto

lemma collapse_space_word_run:
  assumes w: "\<forall>c \<in> set w. \<not> white_space c"
    and r: "r \<noteq> []" "\<forall>c \<in> set r. white_space c"
    and s: "s = [] \<or> \<not> white_space (hd s)"
  shows "collapse_space False (w @ r @ s) = w @ ''_'' @ collapse_space False s"
proof -
  obtain a r' where ar: "r = a # r'" using r(1) by (cases r) auto
  with r(2) have a: "white_space a" and r': "\<forall>c \<in> set r'. white_space c" by simp_all
  have "collapse_space False (r @ s) = CHR ''_'' # collapse_space True (r' @ s)"
    using a by (simp add: ar)
  also have "collapse_space True (r' @ s) = collapse_space True s"
    using r' by (rule collapse_space_run)
  also have "collapse_space True s = collapse_space False s"
    using s by (rule collapse_space_start)
  finally have m: "collapse_space False (r @ s) = CHR ''_'' # collapse_space False s" .
  show ?thesis
    using collapse_space_word [OF w, of False "r @ s"] m by (cases w) simp_all
qed

lemma normalise_word:
  assumes "\<forall>c \<in> set s. \<not> white_space c"
  shows "normalise s = upper s"
proof -
  from assms have "\<forall>c \<in> set (upper s). \<not> white_space c"
    by (simp add: upper_def white_space_upper_c)
  from collapse_space_word [OF this, of False "[]"] show ?thesis
    by (cases s) (simp_all add: normalise_def upper_def)
qed

lemma normalise_word_run:
  assumes w: "\<forall>c \<in> set w. \<not> white_space c"
    and r: "r \<noteq> []" "\<forall>c \<in> set r. white_space c"
    and s: "rest = [] \<or> \<not> white_space (hd rest)"
  shows "normalise (w @ r @ rest) = upper w @ ''_'' @ normalise rest"
proof -
  have 1: "\<forall>c \<in> set (upper w). \<not> white_space c"
    using w by (simp add: upper_def white_space_upper_c)
  have 2: "upper r \<noteq> []" "\<forall>c \<in> set (upper r). white_space c"
    using r by (simp_all add: upper_def white_space_upper_c)
  have 3: "upper rest = [] \<or> \<not> white_space (hd (upper rest))"
    using s by (cases rest) (simp_all add: upper_def white_space_upper_c)
  have "upper (w @ r @ rest) = upper w @ upper r @ upper rest"
    by (simp add: upper_def)
  then show ?thesis
    unfolding normalise_def using collapse_space_word_run [OF 1 2 3] by simp
qed

lemmas branch_eval = branchName_def normalise_def upper_def upper_c_def lowers_def uppers_def
  white_space_def ascii_text_def

text \<open>
  Claim C9, on the model of \<open>branchName\<close>, for identifiers written in ASCII. The branch
  name is the normalised team, an underscore, the normalised leader and \<open>_AI_FIX\<close>. It
  holds no white space and no lower-case letter. An identifier without white space is
  normalised to its upper case; a word followed by a run of white space, however long, is
  normalised to the word in upper case and a single underscore, followed by the rest
  normalised. The function is defined by recursion over the characters of its two
  arguments, so it gives a name for every team and leader, and the name depends on
  nothing else.
\<close>

theorem branch_name_normalises_team_and_leader:
  assumes "ascii_text team" and "ascii_text leader"
  shows "branchName team leader = normalise team @ ''_'' @ normalise leader @ ''_AI_FIX'' \<and>
         (\<forall>c \<in> set (branchName team leader). \<not> white_space c \<and> \<not> is_lower_c c) \<and>
         (\<forall>s \<in> {team, leader}.
            ((\<forall>c \<in> set s. \<not> white_space c) \<longrightarrow> normalise s = upper s) \<and>
            (\<forall>w r rest.
               s = w @ r @ rest \<and> (\<forall>c \<in> set w. \<not> white_space c) \<and>
               r \<noteq> [] \<and> (\<forall>c \<in> set r. white_space c) \<and>
               (rest = [] \<or> \<not> white_space (hd rest)) \<longrightarrow>
               normalise s = upper w @ ''_'' @ normalise rest))"
proof -
  have shape: "branchName team leader = normalise team @ ''_'' @ normalise leader @ ''_AI_FIX''"
    by (simp add: branchName_def)
  have chars: "\<forall>c \<in> set (branchName team leader). \<not> white_space c \<and> \<not> is_lower_c c"
  proof
    fix c assume "c \<in> set (branchName team leader)"
    then have "c \<in> set (normalise team) \<or> c \<in> set (normalise leader) \<or> c \<in> set ''_AI_FIX''"
      unfolding shape by auto
    then show "\<not> white_space c \<and> \<not> is_lower_c c"
    proof (elim disjE)
      assume "c \<in> set (normalise team)" then show ?thesis by (rule normalise_chars)
    next
      assume "c \<in> set (normalise leader)" then show ?thesis by (rule normalise_chars)
    next
      assume "c \<in> set ''_AI_FIX''"
      then show ?thesis by (auto simp: white_space_def is_lower_c_def lowers_def)
    qed
  qed
  have parts: "\<And>s. ((\<forall>c \<in> set s. \<not> white_space c) \<longrightarrow> normalise s = upper s) \<and>
            (\<forall>w r rest.
               s = w @ r @ rest \<and> (\<forall>c \<in> set w. \<not> white_space c) \<and>
               r \<noteq> [] \<and> (\<forall>c \<in> set r. white_space c) \<and>
               (rest = [] \<or> \<not> white_space (hd rest)) \<longrightarrow>
               normalise s = upper w @ ''_'' @ normalise rest)"
    using normalise_word normalise_word_run by blast
  from shape chars parts show ?thesis
    by blast
qed

theorem branch_name_normalises_team_and_leader_witness:
  "ascii_text ''Team  A'' \<and> ascii_text ''john doe'' \<and>
   branchName ''Team  A'' ''john doe'' = ''TEAM_A_JOHN_DOE_AI_FIX'' \<and>
   normalise ''Team  A'' = upper ''Team'' @ ''_'' @ normalise ''A'' \<and>
   normalise ''A'' = upper ''A''"
proof -
  have t: "ascii_text ''Team  A''" and l: "ascii_text ''john doe''"
    by (simp_all add: branch_eval)
  note w = branch_name_normalises_team_and_leader [OF t l]
  from w have "branchName ''Team  A'' ''john doe'' =
      normalise ''Team  A'' @ ''_'' @ normalise ''john doe'' @ ''_AI_FIX''"
    by (rule conjunct1)
  then have v: "branchName ''Team  A'' ''john doe'' = ''TEAM_A_JOHN_DOE_AI_FIX''"
    by (simp add: branch_eval)
  from w have parts: "\<forall>s \<in> {''Team  A'', ''john doe''}.
      ((\<forall>c \<in> set s. \<not> white_space c) \<longrightarrow> normalise s = upper s) \<and>
      (\<forall>w r rest.
         s = w @ r @ rest \<and> (\<forall>c \<in> set w. \<not> white_space c) \<and>
         r \<noteq> [] \<and> (\<forall>c \<in> set r. white_space c) \<and>
         (rest = [] \<or> \<not> white_space (hd rest)) \<longrightarrow>
         normalise s = upper w @ ''_'' @ normalise rest)"
    by (rule conjunct2 [THEN conjunct2])
  then have "\<forall>w r rest.
         ''Team  A'' = w @ r @ rest \<and> (\<forall>c \<in> set w. \<not> white_space c) \<and>
         r \<noteq> [] \<and> (\<forall>c \<in> set r. white_space c) \<and>
         (rest = [] \<or> \<not> white_space (hd rest)) \<longrightarrow>
         normalise ''Team  A'' = upper w @ ''_'' @ normalise rest"
    by simp
  then have "''Team  A'' = ''Team'' @ ''  '' @ ''A'' \<and>
         (\<forall>c \<in> set ''Team''. \<not> white_space c) \<and>
         ''  '' \<noteq> [] \<and> (\<forall>c \<in> set ''  ''. white_space c) \<and>
         (''A'' = [] \<or> \<not> white_space (hd ''A'')) \<longrightarrow>
         normalise ''Team  A'' = upper ''Team'' @ ''_'' @ normalise ''A''"
    by (elim allE)
  then have run: "normalise ''Team  A'' = upper ''Team'' @ ''_'' @ normalise ''A''"
    by (simp add: white_space_def)
  have word: "normalise ''A'' = upper ''A''"
    by (simp add: branch_eval)
  from t l v run word show ?thesis
    by (intro conjI)
qed

section \<open>Properties of the success rate\<close>

lemmas float_eval = success_rate_def js_div_def to_double_def ilog2_def round_half_even_def
  bitlen.simps Let_def exact_percent_def run_with_def

text \<open>
  Two values of the arithmetic, as a check against the doubles of an IEEE 754 machine:
  \<open>0.1\<close> is \<open>0x1.999999999999ap-4\<close> and \<open>23 / 40 * 100\<close> is \<open>0x1.cbfffffffffffp+5\<close>,
  just below \<open>57.5\<close>.
\<close>

lemma to_double_tenth: "to_double 1 10 = (7205759403792794, - 56)"
  by (simp add: float_eval)

lemma js_mul_23_40: "js_mul (js_div 23 40) 100 = Num 8092405580431359 (- 47)"
  by (simp add: float_eval)

text \<open>
  The arithmetic is correct: a number with \<open>bitlen n\<close> digits lies between the powers
  of two, \<open>ilog2\<close> is at most the binary logarithm of the quotient, the rounding to an
  integer is off by at most one half, and so \<open>to_double\<close> returns a significand of 53
  digits that is off by at most half a unit in its last place.
\<close>

lemma bitlen_bounds: "0 < n \<Longrightarrow> 2 ^ (bitlen n - 1) \<le> n \<and> n < 2 ^ bitlen n"
proof (induction n rule: bitlen.induct)
  case (1 n)
  show ?case
  proof (cases "n div 2 = 0")
    case True
    with 1 have "n = 1" by auto
    then show ?thesis by (simp add: bitlen.simps)
  next
    case False
    with 1 have ih: "2 ^ (bitlen (n div 2) - 1) \<le> n div 2" "n div 2 < 2 ^ bitlen (n div 2)"
      by auto
    have pos: "0 < bitlen (n div 2)"
      using False by (subst bitlen.simps) simp
    have b: "bitlen n = Suc (bitlen (n div 2))"
      using 1(2) by (subst bitlen.simps) simp
    have "2 ^ (bitlen n - 1) = 2 * 2 ^ (bitlen (n div 2) - 1)"
      using pos b by (cases "bitlen (n div 2)") auto
    also have "\<dots> \<le> 2 * (n div 2)" using ih(1) by simp
    also have "\<dots> \<le> n" by simp
    finally have lo: "2 ^ (bitlen n - 1) \<le> n" .
    have "n < 2 * (n div 2) + 2" by presburger
    also have "\<dots> \<le> 2 * 2 ^ bitlen (n div 2)" using ih(2) by simp
    also have "\<dots> = 2 ^ bitlen n" by (simp add: b)
    finally show ?thesis using lo by simp
  qed
qed


lemma ilog2_lower:
  assumes "0 < a" and "0 < b"
  shows "(0 \<le> ilog2 a b \<longrightarrow> b * 2 ^ nat (ilog2 a b) \<le> a) \<and>
         (ilog2 a b < 0 \<longrightarrow> b \<le> a * 2 ^ nat (- ilog2 a b))"
proof -
  from bitlen_bounds [OF assms(1)] have a: "2 ^ (bitlen a - 1) \<le> a" "a < 2 ^ bitlen a"
    by simp_all
  from bitlen_bounds [OF assms(2)] have b: "2 ^ (bitlen b - 1) \<le> b" "b < 2 ^ bitlen b"
    by simp_all
  have la: "0 < bitlen a" using assms(1) by (subst bitlen.simps) simp
  have lb: "0 < bitlen b" using assms(2) by (subst bitlen.simps) simp
  obtain p where p: "bitlen a = Suc p" using la by (cases "bitlen a") auto
  obtain q where q: "bitlen b = Suc q" using lb by (cases "bitlen b") auto
  from a p have a': "2 ^ p \<le> a" by simp
  from b q have b': "b < 2 * 2 ^ q" by simp
  show ?thesis
  proof (cases "q \<le> p")
    case True
    then obtain d where d: "p = q + d" by (auto simp: le_iff_add)
    have dd: "int (bitlen a) - int (bitlen b) = int d" using p q d by simp
    show ?thesis
    proof (cases "b * 2 ^ d \<le> a")
      case le: True
      then have "ilog2 a b = int d" by (simp add: ilog2_def dd Let_def)
      with le show ?thesis by simp
    next
      case nle: False
      then have k: "ilog2 a b = int d - 1" by (simp add: ilog2_def dd Let_def)
      show ?thesis
      proof (cases d)
        case 0
        have "b \<le> 2 * 2 ^ q" using b' by simp
        also have "\<dots> \<le> a * 2" using a' d 0 by simp
        finally show ?thesis using k 0 by simp
      next
        case (Suc d')
        have "b * 2 ^ d' \<le> 2 * 2 ^ q * 2 ^ d'" using b' by simp
        also have "\<dots> = 2 ^ p" using d Suc by (simp add: power_add)
        also have "\<dots> \<le> a" by (rule a')
        finally show ?thesis using k Suc by simp
      qed
    qed
  next
    case False
    then obtain d where d: "q = p + Suc d" by (metis less_imp_Suc_add not_le add_Suc_right)
    have dd: "int (bitlen a) - int (bitlen b) = - int (Suc d)" using p q d by simp
    have neg: "\<not> (0::int) \<le> - int (Suc d)" by simp
    show ?thesis
    proof (cases "b \<le> a * 2 ^ Suc d")
      case le: True
      from le have "ilog2 a b = - int (Suc d)"
        unfolding ilog2_def Let_def dd using neg by (simp del: of_nat_Suc)
      moreover have "nat (- (- int (Suc d))) = Suc d" by simp
      ultimately show ?thesis using le by (simp del: power_Suc of_nat_Suc)
    next
      case nle: False
      then have k: "ilog2 a b = - int (Suc d) - 1"
        unfolding ilog2_def Let_def dd using neg by (simp del: of_nat_Suc)
      have "b \<le> 2 * 2 ^ q" using b' by simp
      also have "\<dots> = 2 ^ p * 2 ^ Suc (Suc d)" using d by (simp add: power_add)
      also have "\<dots> \<le> a * 2 ^ Suc (Suc d)" using a' by simp
      finally have "b \<le> a * 2 ^ Suc (Suc d)" .
      moreover have "nat (- (- int (Suc d) - 1)) = Suc (Suc d)" by simp
      ultimately show ?thesis using k by (simp del: power_Suc of_nat_Suc)
    qed
  qed
qed


lemma round_half_even_error:
  assumes "0 < den"
  shows "\<bar>real (round_half_even num den) - real num / real den\<bar> \<le> 1 / 2"
proof -
  define q where "q = num div den"
  define r where "r = num mod den"
  have n: "real num = real q * real den + real r"
    unfolding q_def r_def by (metis div_mult_mod_eq of_nat_add of_nat_mult)
  have d: "0 < real den" using assms by simp
  have quot: "real num / real den = real q + real r / real den"
    using d by (simp add: n field_simps)
  have rlt: "r < den" unfolding r_def using assms by simp
  consider "2 * r < den" | "den < 2 * r" | "2 * r = den" by linarith
  then show ?thesis
  proof cases
    case 1
    then have v: "round_half_even num den = q"
      by (simp add: round_half_even_def Let_def q_def r_def)
    from 1 have "2 * real r < real den" by linarith
    then have "real r / real den \<le> 1 / 2"
      using d by (simp add: field_simps)
    moreover have "0 \<le> real r / real den" using d by simp
    ultimately show ?thesis unfolding v quot by simp
  next
    case 2
    then have v: "round_half_even num den = q + 1"
      by (simp add: round_half_even_def Let_def q_def r_def)
    from 2 have "real den < 2 * real r" by linarith
    then have "1 / 2 \<le> real r / real den"
      using d by (simp add: field_simps)
    moreover have "real r / real den \<le> 1"
      using rlt d by (simp add: field_simps)
    ultimately show ?thesis unfolding v quot by simp
  next
    case 3
    then have "2 * real r = real den" by linarith
    then have h: "real r / real den = 1 / 2"
      using d by (simp add: field_simps)
    have "round_half_even num den = q \<or> round_half_even num den = q + 1"
      using 3 by (simp add: round_half_even_def Let_def q_def r_def)
    then show ?thesis unfolding quot h by auto
  qed
qed


lemma to_double_error:
  assumes a: "0 < a" and b: "0 < b" and lt: "a < b * 2 ^ n" and n: "n \<le> 52"
    and td: "to_double a b = (m, e)"
  shows "\<exists>s. e = - int s \<and> 53 \<le> s + n \<and>
           2 ^ 52 * real b \<le> real a * 2 ^ s \<and>
           \<bar>real m / 2 ^ s - real a / real b\<bar> \<le> 1 / (2 * 2 ^ s)"
proof -
  define k where "k = ilog2 a b"
  note lo = ilog2_lower [OF a b, folded k_def]
  have kn: "k < int n"
  proof (rule ccontr)
    assume "\<not> k < int n"
    then have k0: "0 \<le> k" and nk: "n \<le> nat k" by auto
    from lo k0 have "b * 2 ^ nat k \<le> a" by simp
    moreover have "b * 2 ^ n \<le> b * 2 ^ nat k"
      using nk by (simp add: power_increasing)
    ultimately show False using lt by simp
  qed
  define s where "s = nat (52 - k)"
  have s_int: "int s = 52 - k" using kn n by (simp add: s_def)
  have e_neg: "k - 52 \<le> 0" using kn n by simp
  have m: "m = round_half_even (a * 2 ^ s) b" and e: "e = k - 52"
    using td a e_neg
    by (simp_all add: to_double_def Let_def k_def [symmetric] s_def)
  have e_s: "e = - int s" using e s_int by simp
  have sn: "53 \<le> s + n" using kn s_int by linarith
  have norm: "b * 2 ^ 52 \<le> a * 2 ^ s"
  proof (cases "0 \<le> k")
    case True
    then have le: "b * 2 ^ nat k \<le> a" using lo by simp
    have s52: "nat k + s = 52" using True s_int by linarith
    have "b * 2 ^ 52 = b * 2 ^ (nat k + s)" by (simp only: s52)
    also have "\<dots> = (b * 2 ^ nat k) * 2 ^ s" by (simp only: power_add mult.assoc)
    also have "\<dots> \<le> a * 2 ^ s" using le by (rule mult_le_mono1)
    finally show ?thesis .
  next
    case False
    then have le: "b \<le> a * 2 ^ nat (- k)" using lo by simp
    have s52: "nat (- k) + 52 = s" using False s_int by linarith
    have "b * 2 ^ 52 \<le> (a * 2 ^ nat (- k)) * 2 ^ 52" using le by (rule mult_le_mono1)
    also have "\<dots> = a * 2 ^ (nat (- k) + 52)" by (simp only: power_add mult.assoc)
    also have "\<dots> = a * 2 ^ s" by (simp only: s52)
    finally show ?thesis .
  qed
  then have "real (b * 2 ^ 52) \<le> real (a * 2 ^ s)" by (rule of_nat_mono)
  then have norm_r: "2 ^ 52 * real b \<le> real a * 2 ^ s" by (simp add: mult.commute)
  have r0: "\<bar>real m - real (a * 2 ^ s) / real b\<bar> \<le> 1 / 2"
    unfolding m by (rule round_half_even_error [OF b])
  define X where "X = real m - real a * 2 ^ s / real b"
  have X: "\<bar>X\<bar> \<le> 1 / 2" using r0 by (simp add: X_def)
  have p: "(0::real) < 2 ^ s" by simp
  have "\<bar>X / 2 ^ s\<bar> = \<bar>X\<bar> / 2 ^ s" by simp
  also have "\<dots> \<le> (1 / 2) / 2 ^ s" using X p by (rule divide_right_mono [OF _ less_imp_le])
  finally have "\<bar>X / 2 ^ s\<bar> \<le> 1 / (2 * 2 ^ s)" by simp
  moreover have "X / 2 ^ s = real m / 2 ^ s - real a / real b"
    unfolding X_def by (simp add: field_simps)
  ultimately have err: "\<bar>real m / 2 ^ s - real a / real b\<bar> \<le> 1 / (2 * 2 ^ s)"
    by simp
  from e_s sn norm_r err show ?thesis by blast
qed


text \<open>
  A number close to \<open>t\<close> has the floor of \<open>t\<close>, unless \<open>t\<close> is an integer; then it
  may have the floor below.
\<close>

lemma floor_near:
  fixes v t :: real
  assumes b: "0 < b" and r: "r < 2 * b"
    and t: "t = of_int N + real r / (2 * real b)"
    and close: "\<bar>v - t\<bar> < 1 / (2 * real b)"
  shows "\<lfloor>v\<rfloor> = N \<or> (r = 0 \<and> \<lfloor>v\<rfloor> = N - 1)"
proof -
  define h where "h = 1 / (2 * real b)"
  have h: "0 < h" "h \<le> 1 / 2" using b by (simp_all add: h_def field_simps)
  have rh: "real r / (2 * real b) = real r * h" by (simp add: h_def)
  have "real r \<le> 2 * real b - 1" using r by linarith
  then have "real r * h \<le> (2 * real b - 1) * h" using h(1) by (simp add: mult_right_mono)
  also have "\<dots> = 1 - h" using b by (simp add: h_def field_simps)
  finally have up: "real r * h \<le> 1 - h" .
  from close have c: "t - h < v" "v < t + h" by (auto simp: h_def abs_less_iff)
  have lt: "v < of_int N + 1" using c(2) up by (simp add: t rh)
  show ?thesis
  proof (cases "r = 0")
    case True
    then have "of_int N - h < v" using c(1) by (simp add: t)
    then have ge: "of_int (N - 1) \<le> v" using h(2) by simp
    show ?thesis
    proof (cases "of_int N \<le> v")
      case True
      with lt have "\<lfloor>v\<rfloor> = N" by (simp add: floor_eq_iff)
      then show ?thesis by simp
    next
      case False
      then have "v < of_int (N - 1) + 1" by simp
      with ge have "\<lfloor>v\<rfloor> = N - 1" by (simp only: floor_eq_iff)
      with \<open>r = 0\<close> show ?thesis by simp
    qed
  next
    case False
    then have "1 \<le> real r" by simp
    then have "h \<le> real r * h" using h(1) by simp
    then have "of_int N \<le> v" using c(1) by (simp add: t rh)
    with lt have "\<lfloor>v\<rfloor> = N" by (simp add: floor_eq_iff)
    then show ?thesis by simp
  qed
qed


text \<open>
  The two roundings of the product move it by less than \<open>1 / (2 * b)\<close> from the exact
  percentage, so the rounded product is the exactly rounded percentage unless the exact
  percentage lies half-way between two integers; there it may be the lower one.
\<close>

lemma percent_close:
  assumes a: "0 < a" and b: "0 < b" and small: "a < 2 ^ 40"
  shows "\<exists>n. Math_round (js_mul (js_div a b) 100) = Num n 0 \<and>
           (n = exact_percent a b \<or>
            ((200 * a + b) mod (2 * b) = 0 \<and> n + 1 = exact_percent a b))"
proof -
  define q where "q = real a / real b"
  have qpos: "0 < q" using a b by (simp add: q_def)
  have q_lt: "q < 2 ^ 40"
  proof -
    have "real a < 2 ^ 40" using small by (metis of_nat_less_iff of_nat_numeral of_nat_power)
    moreover have "1 \<le> real b" using b by simp
    then have "(2::real) ^ 40 * 1 \<le> 2 ^ 40 * real b"
      by (intro mult_left_mono) simp_all
    ultimately have "real a < 2 ^ 40 * real b"
      by linarith
    then show ?thesis using b by (simp add: q_def field_simps)
  qed
  \<comment> \<open>the quotient\<close>
  obtain m1 e1 where td1: "to_double a b = (m1, e1)" by (cases "to_double a b")
  have lt1: "a < b * 2 ^ 40"
  proof -
    have "a < 1 * 2 ^ 40" using small by simp
    also have "\<dots> \<le> b * 2 ^ 40" using b by (intro mult_le_mono1) simp
    finally show ?thesis .
  qed
  from to_double_error [OF a b lt1 _ td1] obtain s1 where
    e1: "e1 = - int s1" and s1: "53 \<le> s1 + 40" and
    norm1: "2 ^ 52 * real b \<le> real a * 2 ^ s1" and
    err1: "\<bar>real m1 / 2 ^ s1 - real a / real b\<bar> \<le> 1 / (2 * 2 ^ s1)"
    by auto
  define S1 where "S1 = (2::real) ^ s1"
  have S1: "0 < S1" by (simp add: S1_def)
  define v1 where "v1 = real m1 / S1"
  have ulp1: "1 / S1 \<le> q / 2 ^ 52"
    using norm1 S1 b by (simp add: q_def S1_def field_simps)
  have err1': "\<bar>v1 - q\<bar> \<le> q / 2 ^ 53"
  proof -
    have "\<bar>v1 - q\<bar> \<le> (1 / S1) / 2" using err1 by (simp add: v1_def q_def S1_def)
    also have "\<dots> \<le> (q / 2 ^ 52) / 2" using ulp1 by simp
    finally show ?thesis by simp
  qed
  have "q / 2 ^ 53 \<le> q / 2" using qpos by (simp add: field_simps)
  with err1' have half1: "\<bar>v1 - q\<bar> \<le> q / 2" by linarith
  have v1_lo: "q / 2 \<le> v1" and v1_hi: "v1 \<le> 2 * q"
    using half1 qpos by linarith+
  have m1pos: "0 < m1"
  proof (rule ccontr)
    assume "\<not> 0 < m1"
    then have "v1 = 0" by (simp add: v1_def)
    with v1_lo qpos show False by simp
  qed
  have e1neg: "\<not> 0 \<le> e1" using e1 s1 by simp
  have s1_nat: "nat (- e1) = s1" using e1 by simp
  \<comment> \<open>the product\<close>
  obtain m2 e2 where td2: "to_double (m1 * 100) (2 ^ s1) = (m2, e2)"
    by (cases "to_double (m1 * 100) (2 ^ s1)")
  have mul: "js_mul (js_div a b) 100 = Num m2 e2"
    using b td1 td2 e1neg s1_nat by (simp add: js_div_def)
  have lt2: "m1 * 100 < 2 ^ s1 * 2 ^ 51"
  proof -
    have "real m1 = v1 * S1" using S1 by (simp add: v1_def)
    also have "\<dots> \<le> 2 * q * S1" using v1_hi S1 by simp
    also have "\<dots> < 2 * 2 ^ 40 * S1" using q_lt S1 by simp
    finally have "real m1 * 100 < S1 * 2 ^ 51" by simp
    then have "real (m1 * 100) < real (2 ^ s1 * 2 ^ 51)" by (simp add: S1_def)
    then show ?thesis by (rule of_nat_less_imp_less)
  qed
  have pos2: "0 < m1 * 100" using m1pos by simp
  have p2: "(0::nat) < 2 ^ s1" by simp
  from to_double_error [OF pos2 p2 lt2 _ td2] obtain s2 where
    e2: "e2 = - int s2" and s2: "53 \<le> s2 + 51" and
    norm2: "2 ^ 52 * real ((2::nat) ^ s1) \<le> real (m1 * 100) * 2 ^ s2" and
    err2: "\<bar>real m2 / 2 ^ s2 - real (m1 * 100) / real ((2::nat) ^ s1)\<bar> \<le> 1 / (2 * 2 ^ s2)"
    by auto
  define S2 where "S2 = (2::real) ^ s2"
  have S2: "0 < S2" by (simp add: S2_def)
  define y where "y = 100 * v1"
  define v2 where "v2 = real m2 / S2"
  have y_eq: "real (m1 * 100) / real ((2::nat) ^ s1) = y"
    by (simp add: y_def v1_def S1_def)
  have ulp2: "1 / S2 \<le> y / 2 ^ 52"
  proof -
    have yS: "real (m1 * 100) = y * S1" using S1 by (simp add: y_def v1_def)
    have "2 ^ 52 * S1 \<le> real (m1 * 100) * S2" using norm2 by (simp add: S1_def S2_def)
    then have "2 ^ 52 * S1 \<le> (y * S2) * S1" unfolding yS by (simp add: mult.commute mult.left_commute)
    then have "2 ^ 52 \<le> y * S2" using S1 by (simp only: mult_le_cancel_right_pos)
    then show ?thesis using S2 by (simp add: field_simps)
  qed
  have err2': "\<bar>v2 - y\<bar> \<le> y / 2 ^ 53"
  proof -
    have "\<bar>v2 - y\<bar> \<le> (1 / S2) / 2" using err2 y_eq by (simp add: v2_def S2_def)
    also have "\<dots> \<le> (y / 2 ^ 52) / 2" using ulp2 by simp
    finally show ?thesis by simp
  qed
  \<comment> \<open>the distance of the product from the exact percentage\<close>
  define x where "x = 100 * q"
  have "\<bar>y - x\<bar> = \<bar>100\<bar> * \<bar>v1 - q\<bar>"
    unfolding y_def x_def by (simp only: right_diff_distrib [symmetric] abs_mult)
  also have "\<dots> = 100 * \<bar>v1 - q\<bar>" by simp
  also have "\<dots> \<le> 100 * (q / 2 ^ 53)" using err1' by simp
  also have "\<dots> = x / 2 ^ 53" by (simp add: x_def)
  finally have yx: "\<bar>y - x\<bar> \<le> x / 2 ^ 53" .
  have y2x: "y \<le> 2 * x" using v1_hi by (simp add: y_def x_def)
  have "y / 2 ^ 53 \<le> (2 * x) / 2 ^ 53" using y2x by (rule divide_right_mono) simp
  with err2' have vy: "\<bar>v2 - y\<bar> \<le> 2 * x / 2 ^ 53" by linarith
  have "\<bar>v2 - x\<bar> \<le> \<bar>v2 - y\<bar> + \<bar>y - x\<bar>" by linarith
  also have "\<dots> \<le> 2 * x / 2 ^ 53 + x / 2 ^ 53" using vy yx by linarith
  also have "\<dots> = 3 * x / 2 ^ 53" by simp
  finally have "\<bar>v2 - x\<bar> \<le> 3 * x / 2 ^ 53" .
  moreover have "3 * x / 2 ^ 53 < 1 / (2 * real b)"
  proof -
    have "real a < 2 ^ 40" using small by (metis of_nat_less_iff of_nat_numeral of_nat_power)
    then have "600 * real a < 2 ^ 53" by simp
    then have "3 * (100 * (real a / real b)) / 2 ^ 53 < 1 / (2 * real b)"
      using b by (simp add: field_simps)
    then show ?thesis by (simp add: x_def q_def)
  qed
  ultimately have close: "\<bar>v2 - x\<bar> < 1 / (2 * real b)" by linarith
  \<comment> \<open>the two roundings to an integer\<close>
  define n where "n = (2 * m2 + 2 ^ s2) div 2 ^ (s2 + 1)"
  have e2neg: "\<not> 0 \<le> e2" using e2 s2 by simp
  have s2_nat: "nat (- e2) = s2" using e2 by simp
  have res: "Math_round (js_mul (js_div a b) 100) = Num n 0"
    unfolding mul using e2neg s2_nat by (simp add: n_def)
  have n_floor: "int n = \<lfloor>v2 + 1 / 2\<rfloor>"
  proof -
    have "int n = \<lfloor>real (2 * m2 + 2 ^ s2) / real ((2::nat) ^ (s2 + 1))\<rfloor>"
      unfolding n_def by (simp only: floor_divide_of_nat_eq)
    also have "real (2 * m2 + 2 ^ s2) / real ((2::nat) ^ (s2 + 1)) = v2 + 1 / 2"
      using S2 by (simp add: v2_def S2_def field_simps)
    finally show ?thesis .
  qed
  define N where "N = exact_percent a b"
  define r where "r = (200 * a + b) mod (2 * b)"
  have r_lt: "r < 2 * b" using b by (simp add: r_def)
  have t: "x + 1 / 2 = of_int (int N) + real r / (2 * real b)"
  proof -
    have "200 * a + b = N * (2 * b) + r"
      unfolding N_def r_def exact_percent_def by (rule div_mult_mod_eq [symmetric])
    then have "real (200 * a + b) = real (N * (2 * b) + r)" by simp
    then have "200 * real a + real b = real N * (2 * real b) + real r" by simp
    then show ?thesis using b by (simp add: x_def q_def field_simps)
  qed
  have "\<bar>(v2 + 1 / 2) - (x + 1 / 2)\<bar> < 1 / (2 * real b)" using close by simp
  from floor_near [OF b r_lt t this]
  have "\<lfloor>v2 + 1 / 2\<rfloor> = int N \<or> (r = 0 \<and> \<lfloor>v2 + 1 / 2\<rfloor> = int N - 1)" .
  then have fl: "int n = int N \<or> (r = 0 \<and> int n = int N - 1)"
    by (simp only: n_floor)
  have nN: "n = N \<or> (r = 0 \<and> n + 1 = N)"
  proof (rule disjE [OF fl])
    assume "int n = int N"
    then show ?thesis by simp
  next
    assume "r = 0 \<and> int n = int N - 1"
    then have "r = 0" and "int n + 1 = int N" by simp_all
    then have "r = 0" and "n + 1 = N" by linarith+
    then show ?thesis by simp
  qed
  have final: "n = exact_percent a b \<or>
      ((200 * a + b) mod (2 * b) = 0 \<and> n + 1 = exact_percent a b)"
    using nN by (simp only: N_def r_def)
  show ?thesis
    by (rule exI [of _ n]) (rule conjI [OF res final])
qed

lemma percent_of_zero: "0 < b \<Longrightarrow> Math_round (js_mul (js_div 0 b) 100) = Num 0 0"
  by (simp add: js_div_def to_double_def)

text \<open>
  Claim C10, as the code has it, for counts that a double holds exactly. The card shows 0
  when the run has no failures, whatever its status. Otherwise it shows \<open>Math.round\<close>
  of the double product \<open>(total_fixes / total_failures) * 100\<close>, the quotient first; the
  division is not evaluated with a zero denominator, and the number shown is a finite
  integer: the exactly rounded percentage, or one less than it when the exact percentage
  lies half-way between two integers.
\<close>

theorem success_rate_guarded:
  assumes "total_fixes run < 2 ^ 40" and "total_failures run < 2 ^ 53"
  shows "(total_failures run = 0 \<longrightarrow> success_rate run = Num 0 0) \<and>
         (0 < total_failures run \<longrightarrow>
            success_rate run =
              Math_round (js_mul (js_div (total_fixes run) (total_failures run)) 100) \<and>
            js_div (total_fixes run) (total_failures run) \<noteq> NaN \<and>
            js_div (total_fixes run) (total_failures run) \<noteq> Infinity \<and>
            (\<exists>n. success_rate run = Num n 0 \<and>
               (n = exact_percent (total_fixes run) (total_failures run) \<or>
                ((200 * total_fixes run + total_failures run) mod (2 * total_failures run) = 0 \<and>
                 n + 1 = exact_percent (total_fixes run) (total_failures run)))))"
proof -
  have zero: "total_failures run = 0 \<longrightarrow> success_rate run = Num 0 0"
    by (simp add: success_rate_def)
  have pos: "0 < total_failures run \<longrightarrow>
      success_rate run =
        Math_round (js_mul (js_div (total_fixes run) (total_failures run)) 100)"
    by (simp add: success_rate_def)
  have dv: "0 < total_failures run \<longrightarrow>
      js_div (total_fixes run) (total_failures run) \<noteq> NaN \<and>
      js_div (total_fixes run) (total_failures run) \<noteq> Infinity"
    by (simp add: js_div_def split: prod.splits)
  have cl: "0 < total_failures run \<longrightarrow>
      (\<exists>n. success_rate run = Num n 0 \<and>
         (n = exact_percent (total_fixes run) (total_failures run) \<or>
          ((200 * total_fixes run + total_failures run) mod (2 * total_failures run) = 0 \<and>
           n + 1 = exact_percent (total_fixes run) (total_failures run))))"
  proof
    assume b: "0 < total_failures run"
    then have sr: "success_rate run =
        Math_round (js_mul (js_div (total_fixes run) (total_failures run)) 100)"
      by (simp add: success_rate_def)
    show "\<exists>n. success_rate run = Num n 0 \<and>
         (n = exact_percent (total_fixes run) (total_failures run) \<or>
          ((200 * total_fixes run + total_failures run) mod (2 * total_failures run) = 0 \<and>
           n + 1 = exact_percent (total_fixes run) (total_failures run)))"
    proof (cases "total_fixes run = 0")
      case True
      have "success_rate run = Num 0 0"
        unfolding sr True by (rule percent_of_zero [OF b])
      moreover have "exact_percent 0 (total_failures run) = 0"
        using b by (simp add: exact_percent_def)
      ultimately show ?thesis
        unfolding True by (intro exI [of _ 0]) simp
    next
      case False
      then have a: "0 < total_fixes run" by simp
      from percent_close [OF a b assms(1)] show ?thesis
        unfolding sr .
    qed
  qed
  show ?thesis
  proof (intro conjI impI)
    assume "total_failures run = 0"
    with zero show "success_rate run = Num 0 0" by (rule mp)
  next
    assume b: "0 < total_failures run"
    from pos b show "success_rate run =
        Math_round (js_mul (js_div (total_fixes run) (total_failures run)) 100)"
      by (rule mp)
  next
    assume b: "0 < total_failures run"
    from dv b show "js_div (total_fixes run) (total_failures run) \<noteq> NaN"
      by blast
  next
    assume b: "0 < total_failures run"
    from dv b show "js_div (total_fixes run) (total_failures run) \<noteq> Infinity"
      by blast
  next
    assume b: "0 < total_failures run"
    from cl b show "\<exists>n. success_rate run = Num n 0 \<and>
         (n = exact_percent (total_fixes run) (total_failures run) \<or>
          ((200 * total_fixes run + total_failures run) mod (2 * total_failures run) = 0 \<and>
           n + 1 = exact_percent (total_fixes run) (total_failures run)))"
      by (rule mp)
  qed
qed

theorem success_rate_guarded_witness:
  "total_fixes (run_with 0 0 PASSED) < 2 ^ 40 \<and>
   total_failures (run_with 0 0 PASSED) = 0 \<and>
   success_rate (run_with 0 0 PASSED) = Num 0 0 \<and>
   total_fixes (run_with 3 4 PARTIAL) < 2 ^ 40 \<and>
   total_failures (run_with 3 4 PARTIAL) < 2 ^ 53 \<and>
   0 < total_failures (run_with 3 4 PARTIAL) \<and>
   success_rate (run_with 3 4 PARTIAL) = Num 75 0 \<and>
   exact_percent 3 4 = 75"
proof -
  have z: "total_failures (run_with 0 0 PASSED) = 0"
    and zf: "total_fixes (run_with 0 0 PASSED) < 2 ^ 40"
    and zl: "total_failures (run_with 0 0 PASSED) < 2 ^ 53"
    by (simp_all add: run_with_def)
  have p: "0 < total_failures (run_with 3 4 PARTIAL)"
    and pf: "total_fixes (run_with 3 4 PARTIAL) < 2 ^ 40"
    and pl: "total_failures (run_with 3 4 PARTIAL) < 2 ^ 53"
    by (simp_all add: run_with_def)
  from success_rate_guarded [OF zf zl] z
  have a: "success_rate (run_with 0 0 PASSED) = Num 0 0"
    by blast
  from success_rate_guarded [OF pf pl] p
  have "success_rate (run_with 3 4 PARTIAL) =
      Math_round (js_mul (js_div (total_fixes (run_with 3 4 PARTIAL))
        (total_failures (run_with 3 4 PARTIAL))) 100)"
    by blast
  then have b: "success_rate (run_with 3 4 PARTIAL) = Num 75 0"
    by (simp add: float_eval)
  have e: "exact_percent 3 4 = 75"
    by (simp add: exact_percent_def)
  from z zf a p pf pl b e show ?thesis
    by blast
qed

text \<open>
  Claim C10, as stated, fails: for 23 fixes of 40 failures the exact percentage is 57.5 and
  rounds to 58, but the quotient \<open>23 / 40\<close> is rounded to a double before it is
  multiplied, the product is just below 57.5, and the card shows 57.
\<close>

theorem success_rate_counterexample:
  "success_rate (run_with 23 40 PARTIAL) = Num 57 0 \<and> exact_percent 23 40 = 58"
  by (simp add: float_eval)

section \<open>Properties of language detection\<close>

lemma detect_in_unknown:
  "\<not> list_ex (\<lambda>(lang, files). list_ex (marker_present entries) files) ms \<Longrightarrow>
   detect_in entries ms = ''unknown''"
  by (induction ms) auto

text \<open>
  Claim C5, as the code has it. A repository that matches no detection marker is reported
  as the language \<open>unknown\<close>, and the registry lookup for it does not fail: it answers
  with the Python plugin, whose parser and fixer the run then uses.
\<close>

theorem unknown_language_falls_back_to_python:
  "no_marker entries \<Longrightarrow>
   detect_language entries = ''unknown'' \<and>
   get_language_plugin (detect_language entries) = PythonPlugin \<and>
   run_fix_calls python_parser entries output repo_path =
     map (\<lambda>error. (PythonPlugin, error)) (python_parser output repo_path)"
  by (simp add: no_marker_def detect_language_def detect_in_unknown
      get_language_plugin_def LANGUAGE_REGISTRY_def run_fix_calls_def)

theorem unknown_language_falls_back_to_python_witness:
  "no_marker [''README.md'', ''main.c''] \<and>
   detect_language [''README.md'', ''main.c''] = ''unknown'' \<and>
   get_language_plugin (detect_language [''README.md'', ''main.c'']) = PythonPlugin \<and>
   run_fix_calls (\<lambda>output repo_path. []) [''README.md'', ''main.c''] ''ok'' None = []"
proof -
  have h: "no_marker [''README.md'', ''main.c'']"
    by (simp add: no_marker_def markers_def marker_present_def glob_match_def)
  note t = unknown_language_falls_back_to_python
      [OF h, of "\<lambda>output repo_path. []" "''ok''" None]
  have r: "run_fix_calls (\<lambda>output repo_path. []) [''README.md'', ''main.c''] ''ok'' None = []"
    using t by simp
  show ?thesis
    using h t r by blast
qed

text \<open>
  Claim C5, as stated, fails: the repository that holds only \<open>README.md\<close> matches no
  marker, and for a test output in which the parser of the Python plugin finds an error
  the fixer of that plugin is called on it.
\<close>

theorem unknown_language_counterexample:
  "no_marker [''README.md''] \<and>
   run_fix_calls
     (\<lambda>output repo_path. [\<lparr>file = ''main.c'', line = 1, type = SYNTAX, message = output\<rparr>])
     [''README.md''] ''SyntaxError'' None =
   [(PythonPlugin, \<lparr>file = ''main.c'', line = 1, type = SYNTAX, message = ''SyntaxError''\<rparr>)]"
  by (simp add: no_marker_def markers_def marker_present_def glob_match_def
      run_fix_calls_def detect_language_def get_language_plugin_def LANGUAGE_REGISTRY_def)

end
